theory Spec2Isabelle
  imports Complex_Main "HOL-Library.AList"
begin

section \<open>Python values used by the ingestion code\<close>

text \<open>
  The station files are read as text, so a line is a Python \<open>str\<close>: a sequence of
  code points. A \<open>char\<close> of this theory is a code point below 256 (ASCII and Latin-1),
  which is where all the characters live that the parser treats specially: the tab, the
  newline, the white space that \<open>str.strip\<close> removes, the sign, the underscore and the
  digits. Python's \<open>int\<close> is unbounded and is \<open>int\<close> here. A Python \<open>float\<close> is
  modelled by the real number it approximates: rounding to 53 bits is not modelled, the
  bounded range of a float is (converting an integer that is too large raises
  \<open>OverflowError\<close>).
\<close>

datatype error =
    RuntimeError
  | OverflowError
  | DataError
  | CardinalityViolation
  | IntegrityError
  | SQLAlchemyError

text \<open>\<open>str.isspace\<close> on one code point below 256.\<close>

definition py_isspace :: "char \<Rightarrow> bool" where
  "py_isspace c = (c \<in> set [CHR 0x09, CHR 0x0A, CHR 0x0B, CHR 0x0C, CHR 0x0D,
      CHR 0x1C, CHR 0x1D, CHR 0x1E, CHR 0x1F, CHR 0x20, CHR 0x85, CHR 0xA0])"

text \<open>\<open>str.isdecimal\<close> on one code point below 256: the ten ASCII digits.\<close>

definition py_isdecimal :: "char \<Rightarrow> bool" where
  "py_isdecimal c = (c \<in> set ''0123456789'')"

text \<open>
  \<open>str.isdigit\<close> on one code point below 256: the ASCII digits and the superscript
  digits two, three and one (U+00B2, U+00B3, U+00B9).
\<close>

definition py_isdigit_char :: "char \<Rightarrow> bool" where
  "py_isdigit_char c = (py_isdecimal c \<or> c \<in> set [CHR 0xB2, CHR 0xB3, CHR 0xB9])"

text \<open>\<open>s.isdigit()\<close>: at least one character, and all of them digits.\<close>

definition py_isdigit :: "string \<Rightarrow> bool" where
  "py_isdigit s = (s \<noteq> [] \<and> list_all py_isdigit_char s)"

text \<open>\<open>s.strip()\<close>: white space removed at both ends.\<close>

definition py_strip :: "string \<Rightarrow> string" where
  "py_strip s = rev (dropWhile py_isspace (rev (dropWhile py_isspace s)))"

text \<open>\<open>s.rstrip(ch)\<close> for a one-character argument.\<close>

definition py_rstrip :: "char \<Rightarrow> string \<Rightarrow> string" where
  "py_rstrip ch s = rev (dropWhile (\<lambda>c. c = ch) (rev s))"

text \<open>\<open>s.split(sep)\<close> for a one-character separator: never the empty list.\<close>

fun py_split :: "char \<Rightarrow> string \<Rightarrow> string list" where
  "py_split sep [] = [[]]"
| "py_split sep (c # cs) =
     (if c = sep then [] # py_split sep cs
      else (case py_split sep cs of
              [] \<Rightarrow> [[c]]
            | f # fs \<Rightarrow> (c # f) # fs))"

text \<open>
  \<open>int(s)\<close> in base 10. White space at both ends is skipped, one sign is allowed, then
  decimal digits follow, where single underscores may stand between two digits.
  \<open>int_digits\<close> reads the digits; its flag tells whether the previous character was a
  digit. Everything else raises \<open>ValueError\<close>, which is \<open>None\<close> here. So does a literal
  of more than \<open>max_str_digits\<close> digits when that limit of the interpreter is not 0
  (4300 unless configured; 0, or an interpreter that has no such limit, accepts every
  length).
\<close>

definition digit_val :: "char \<Rightarrow> int" where
  "digit_val c = of_char c - 48"

fun int_digits :: "string \<Rightarrow> int \<Rightarrow> bool \<Rightarrow> int option" where
  "int_digits [] acc prev = (if prev then Some acc else None)"
| "int_digits (c # cs) acc prev =
     (if py_isdecimal c then int_digits cs (10 * acc + digit_val c) True
      else if c = CHR ''_'' \<and> prev then int_digits cs acc False
      else None)"

definition py_int :: "nat \<Rightarrow> string \<Rightarrow> int option" where
  "py_int max_str_digits x =
     (let s = py_strip x;
          neg = (s \<noteq> [] \<and> hd s = CHR ''-'');
          body = (if s \<noteq> [] \<and> (hd s = CHR ''-'' \<or> hd s = CHR ''+'') then tl s else s)
      in case int_digits body 0 False of
           None \<Rightarrow> None
         | Some n \<Rightarrow>
             if 0 < max_str_digits \<and> max_str_digits < length (filter py_isdecimal body)
             then None
             else Some (if neg then - n else n))"

text \<open>
  \<open>int / float\<close>: the integer is converted to a float first, which raises
  \<open>OverflowError\<close> when it rounds to \<open>2 ^ 1024\<close> or beyond.
\<close>

definition int_truediv :: "int \<Rightarrow> real \<Rightarrow> error + real" where
  "int_truediv i d =
     (if 2 ^ 1024 - 2 ^ 970 \<le> \<bar>i\<bar> then Inl OverflowError else Inr (real_of_int i / d))"

section \<open>The unit converter (ingest\_weather.py)\<close>

text \<open>
  \<open>_parse_int\<close> (lines 39 to 47): the stripped field, \<open>None\<close> for the empty string, the
  sentinel and whatever \<open>int\<close> rejects.
\<close>

definition parse_int :: "nat \<Rightarrow> string \<Rightarrow> int option" where
  "parse_int max_str_digits x0 =
     (let x = py_strip x0
      in if x = [] \<or> x = ''-9999'' then None else py_int max_str_digits x)"

text \<open>
  The conversions of \<open>main\<close> (lines 123 to 125): \<open>None if v is None else v / 10.0\<close> for
  the two temperatures, \<open>(v / 10.0) / 10.0\<close> for the precipitation. The results are the
  exact quotients, as real numbers. The code's floats are these quotients rounded, for
  the precipitation rounded twice: raw \<open>7\<close> is stored as \<open>0.06999999999999999\<close>, which
  is not the float nearest to \<open>0.07\<close>. Nothing below depends on the last bit of a
  stored measurement, and no statement about it is made.
\<close>

definition temp_c :: "int option \<Rightarrow> error + real option" where
  "temp_c v =
     (case v of
        None \<Rightarrow> Inr None
      | Some i \<Rightarrow> (case int_truediv i 10 of Inl e \<Rightarrow> Inl e | Inr f \<Rightarrow> Inr (Some f)))"

definition precip_cm_of :: "int option \<Rightarrow> error + real option" where
  "precip_cm_of v =
     (case v of
        None \<Rightarrow> Inr None
      | Some i \<Rightarrow> (case int_truediv i 10 of Inl e \<Rightarrow> Inl e | Inr f \<Rightarrow> Inr (Some (f / 10))))"

section \<open>The stores\<close>

text \<open>
  The three tables of models.py and of the marker class \<open>IngestionState\<close>. A table is
  the list of its rows, a row the pair of its unique key and its other columns; the
  surrogate \<open>id\<close> columns carry no information and are left out. \<open>weather\<close> is unique on
  \<open>(station_id, date)\<close>, \<open>weather_stats\<close> on \<open>(station_id, year)\<close>, \<open>ingestion_state\<close>
  has the primary key \<open>key\<close>.
\<close>

datatype date = Date (year: nat) (month: nat) (day: nat)

type_synonym measurements = "real option \<times> real option \<times> real option"

type_synonym weather_row = "(string \<times> date) \<times> measurements"

type_synonym stats_row = "(string \<times> int) \<times> measurements"

record database =
  weather :: "weather_row list"
  weather_stats :: "stats_row list"
  ingestion_state :: "(string \<times> bool) list"

text \<open>
  The cast PostgreSQL applies to the text that \<open>main\<close> supplies for the \<open>date\<close> column.
  \<open>main\<close> only builds texts of the shape \<open>cccc-cc-cc\<close>; such a text is a date when the
  eight characters are ASCII digits and name a day of the calendar (there is no year 0).
\<close>

definition leap_year :: "nat \<Rightarrow> bool" where
  "leap_year y = (y mod 4 = 0 \<and> (y mod 100 \<noteq> 0 \<or> y mod 400 = 0))"

definition days_in_month :: "nat \<Rightarrow> nat \<Rightarrow> nat" where
  "days_in_month y m =
     (if m = 2 then (if leap_year y then 29 else 28)
      else if m = 4 \<or> m = 6 \<or> m = 9 \<or> m = 11 then 30
      else 31)"

definition valid_date :: "date \<Rightarrow> bool" where
  "valid_date d =
     (1 \<le> year d \<and> 1 \<le> month d \<and> month d \<le> 12 \<and> 1 \<le> day d
      \<and> day d \<le> days_in_month (year d) (month d))"

definition nat_of_digits :: "string \<Rightarrow> nat" where
  "nat_of_digits s = foldl (\<lambda>a c. 10 * a + nat (digit_val c)) 0 s"

definition date_in :: "string \<Rightarrow> date option" where
  "date_in s =
     (let y = take 4 s; m = take 2 (drop 5 s); d = take 2 (drop 8 s)
      in if length s = 10 \<and> s ! 4 = CHR ''-'' \<and> s ! 7 = CHR ''-''
            \<and> list_all py_isdecimal (y @ m @ d)
            \<and> valid_date (Date (nat_of_digits y) (nat_of_digits m) (nat_of_digits d))
         then Some (Date (nat_of_digits y) (nat_of_digits m) (nat_of_digits d))
         else None)"

section \<open>The batch writer's statement (ingest\_weather.py, upsert\_sql)\<close>

text \<open>
  A row of the batch, as \<open>main\<close> appends it (line 130): station, date text and the
  three converted measurements.
\<close>

type_synonym row = "string \<times> string \<times> real option \<times> real option \<times> real option"

definition cast_row :: "row \<Rightarrow> weather_row option" where
  "cast_row r =
     (case r of (station_id, obs_date, max_c, min_c, precip) \<Rightarrow>
        (case date_in obs_date of
           None \<Rightarrow> None
         | Some d \<Rightarrow> Some ((station_id, d), (max_c, min_c, precip))))"

fun cast_rows :: "row list \<Rightarrow> weather_row list option" where
  "cast_rows [] = Some []"
| "cast_rows (r # rs) =
     (case cast_row r of
        None \<Rightarrow> None
      | Some kv \<Rightarrow> (case cast_rows rs of None \<Rightarrow> None | Some kvs \<Rightarrow> Some (kv # kvs)))"

text \<open>
  \<open>ON CONFLICT (station_id, date) DO UPDATE SET\<close> of the three measurement columns to
  the \<open>EXCLUDED\<close> values (lines 86 to 93), for one proposed row: a row with the key is
  overwritten in place, otherwise the row is added.
\<close>

definition upsert_row :: "weather_row list \<Rightarrow> weather_row \<Rightarrow> weather_row list" where
  "upsert_row t kv = AList.update (fst kv) (snd kv) t"

text \<open>
  One \<open>INSERT ... VALUES ... ON CONFLICT DO UPDATE\<close> statement. PostgreSQL refuses a
  text that is no date (a \<open>DataError\<close>), and refuses a statement that proposes the same
  key twice (\<open>ON CONFLICT DO UPDATE command cannot affect row a second time\<close>, a
  \<open>CardinalityViolation\<close>). A refused statement changes nothing.
\<close>

definition upsert_statement :: "weather_row list \<Rightarrow> row list \<Rightarrow> error + weather_row list" where
  "upsert_statement t rs =
     (case cast_rows rs of
        None \<Rightarrow> Inl DataError
      | Some kvs \<Rightarrow>
          if distinct (map fst kvs) then Inr (foldl upsert_row t kvs)
          else Inl CardinalityViolation)"

text \<open>
  \<open>execute_values(cur, upsert_sql, batch, page_size=5000)\<close>: psycopg2 cuts the batch
  into pages of \<open>page_size\<close> rows and sends one statement per page, all in the open
  transaction.
\<close>

function paginate :: "nat \<Rightarrow> 'a list \<Rightarrow> 'a list list" where
  "paginate n xs = (if n = 0 \<or> xs = [] then [] else take n xs # paginate n (drop n xs))"
  by pat_completeness auto
termination
  by (relation "measure (\<lambda>(n, xs). length xs)") auto

declare paginate.simps [simp del]

fun run_pages :: "weather_row list \<Rightarrow> row list list \<Rightarrow> error + weather_row list" where
  "run_pages t [] = Inr t"
| "run_pages t (p # ps) =
     (case upsert_statement t p of
        Inl e \<Rightarrow> Inl e
      | Inr t' \<Rightarrow> run_pages t' ps)"

definition execute_values :: "weather_row list \<Rightarrow> row list \<Rightarrow> error + weather_row list" where
  "execute_values t rows = run_pages t (paginate 5000 rows)"

section \<open>The batch job (ingest\_weather.py, main)\<close>

text \<open>
  What \<open>main\<close> reads from its surroundings: the environment variables, as the module
  reads them when it is loaded, the station files and the interpreter's limit on
  integer literals. \<open>wx_files\<close> is \<open>None\<close> when \<open>WX_DIR\<close> is missing or no directory,
  and otherwise the \<open>*.txt\<close> files in sorted order, each as its stem and the lines that
  iterating over the open file yields.
\<close>

record settings =
  database_url :: string
  wx_files :: "(string \<times> string list) list option"
  COMMIT_EVERY :: int
  FORCE_INGEST :: bool
  max_str_digits :: nat

text \<open>
  Line 36: the flag is set when the variable, stripped and in lower case, is one of
  \<open>1\<close>, \<open>true\<close>, \<open>yes\<close>, \<open>y\<close>; an unset variable counts as \<open>0\<close>.
\<close>

definition py_lower_char :: "char \<Rightarrow> char" where
  "py_lower_char c =
     (let n = (of_char c :: nat)
      in if (65 \<le> n \<and> n \<le> 90) \<or> (192 \<le> n \<and> n \<le> 222 \<and> n \<noteq> 215)
         then char_of (n + 32) else c)"

definition force_ingest_of_env :: "string option \<Rightarrow> bool" where
  "force_ingest_of_env v =
     (map py_lower_char (py_strip (case v of None \<Rightarrow> ''0'' | Some x \<Rightarrow> x))
        \<in> set [''1'', ''true'', ''yes'', ''y''])"

text \<open>
  The variables of the loop. \<open>table\<close> is the committed content of \<open>weather\<close>;
  \<open>flushed\<close> is a history variable that the source does not have: the batches handed
  to \<open>execute_values\<close> and committed, in order.
\<close>

record ingest_state =
  total_lines :: nat
  upserts :: nat
  skipped_bad_lines :: nat
  batch :: "row list"
  table :: "weather_row list"
  flushed :: "row list list"

text \<open>
  Lines 133 to 137 and 141 to 145: one \<open>execute_values\<close> and one \<open>commit\<close>. When a
  statement is refused the exception leaves \<open>main\<close>, whose \<open>finally\<close> closes the
  connection, and the open transaction is lost: nothing of the batch is stored.
\<close>

definition flush :: "ingest_state \<Rightarrow> error option \<times> ingest_state" where
  "flush s =
     (case execute_values (table s) (batch s) of
        Inl e \<Rightarrow> (Some e, s)
      | Inr t \<Rightarrow>
          (None, s\<lparr>table := t,
                   upserts := upserts s + length (batch s),
                   flushed := flushed s @ [batch s],
                   batch := []\<rparr>))"

text \<open>The line parser's test (lines 107 to 115): \<open>True\<close> when the line is kept.\<close>

definition line_ok :: "string \<Rightarrow> bool" where
  "line_ok line =
     (let parts = py_split (CHR 0x09) (py_rstrip (CHR 0x0A) line)
      in \<not> length parts < 4
         \<and> \<not> (length (py_strip (parts ! 0)) \<noteq> 8 \<or> \<not> py_isdigit (py_strip (parts ! 0))))"

text \<open>The body of the inner loop (lines 106 to 137).\<close>

definition ingest_line ::
  "settings \<Rightarrow> string \<Rightarrow> string \<Rightarrow> ingest_state \<Rightarrow> error option \<times> ingest_state" where
  "ingest_line cfg station_id line s0 =
     (let s = s0\<lparr>total_lines := total_lines s0 + 1\<rparr>;
          parts = py_split (CHR 0x09) (py_rstrip (CHR 0x0A) line)
      in if length parts < 4
         then (None, s\<lparr>skipped_bad_lines := skipped_bad_lines s + 1\<rparr>)
         else
           let datestr = py_strip (parts ! 0)
           in if length datestr \<noteq> 8 \<or> \<not> py_isdigit datestr
              then (None, s\<lparr>skipped_bad_lines := skipped_bad_lines s + 1\<rparr>)
              else
                let tmax_i = parse_int (max_str_digits cfg) (parts ! 1);
                    tmin_i = parse_int (max_str_digits cfg) (parts ! 2);
                    prcp_i = parse_int (max_str_digits cfg) (parts ! 3)
                in case temp_c tmax_i of
                     Inl e \<Rightarrow> (Some e, s)
                   | Inr max_c \<Rightarrow>
                  (case temp_c tmin_i of
                     Inl e \<Rightarrow> (Some e, s)
                   | Inr min_c \<Rightarrow>
                  (case precip_cm_of prcp_i of
                     Inl e \<Rightarrow> (Some e, s)
                   | Inr precip \<Rightarrow>
                       let obs_date = take 4 datestr @ ''-'' @ take 2 (drop 4 datestr)
                                        @ ''-'' @ take 2 (drop 6 datestr);
                           s1 = s\<lparr>batch := batch s @ [(station_id, obs_date, max_c, min_c, precip)]\<rparr>
                       in if COMMIT_EVERY cfg \<le> int (length (batch s1))
                          then flush s1
                          else (None, s1))))"

text \<open>The two loops (lines 102 to 105): an exception ends them.\<close>

fun ingest_lines ::
  "settings \<Rightarrow> string \<Rightarrow> string list \<Rightarrow> ingest_state \<Rightarrow> error option \<times> ingest_state" where
  "ingest_lines cfg station_id [] s = (None, s)"
| "ingest_lines cfg station_id (line # rest) s =
     (case ingest_line cfg station_id line s of
        (Some e, s') \<Rightarrow> (Some e, s')
      | (None, s') \<Rightarrow> ingest_lines cfg station_id rest s')"

fun ingest_files ::
  "settings \<Rightarrow> (string \<times> string list) list \<Rightarrow> ingest_state \<Rightarrow> error option \<times> ingest_state" where
  "ingest_files cfg [] s = (None, s)"
| "ingest_files cfg (fp # rest) s =
     (case ingest_lines cfg (fst fp) (snd fp) s of
        (Some e, s') \<Rightarrow> (Some e, s')
      | (None, s') \<Rightarrow> ingest_files cfg rest s')"

text \<open>The \<open>try\<close> block (lines 100 to 145): the loops, then the final flush.\<close>

definition initial_state :: "weather_row list \<Rightarrow> ingest_state" where
  "initial_state t =
     \<lparr>total_lines = 0, upserts = 0, skipped_bad_lines = 0, batch = [], table = t, flushed = []\<rparr>"

definition run_ingest ::
  "settings \<Rightarrow> (string \<times> string list) list \<Rightarrow> weather_row list \<Rightarrow> error option \<times> ingest_state" where
  "run_ingest cfg files t =
     (case ingest_files cfg files (initial_state t) of
        (Some e, s) \<Rightarrow> (Some e, s)
      | (None, s) \<Rightarrow> if batch s \<noteq> [] then flush s else (None, s))"

text \<open>
  \<open>main\<close>: what it reports and the content of \<open>weather\<close> when it returns or raises.
  \<open>Skipped n\<close> is the early return of line 73 with \<open>n\<close> existing rows; \<open>Ingested\<close>
  carries the numbers of the final summary (files, lines, upserts, skipped bad lines).
\<close>

datatype report = Skipped nat | Ingested nat nat nat nat

definition main :: "settings \<Rightarrow> weather_row list \<Rightarrow> (error + report) \<times> weather_row list" where
  "main cfg t =
     (if py_strip (database_url cfg) = [] then (Inl RuntimeError, t)
      else
        let existing = length t
        in if 0 < existing \<and> \<not> FORCE_INGEST cfg then (Inr (Skipped existing), t)
           else
             (case wx_files cfg of
                None \<Rightarrow> (Inl RuntimeError, t)
              | Some files \<Rightarrow>
                  (case run_ingest cfg files t of
                     (Some e, s) \<Rightarrow> (Inl e, table s)
                   | (None, s) \<Rightarrow>
                       (Inr (Ingested (length files) (total_lines s) (upserts s)
                               (skipped_bad_lines s)),
                        table s))))"

section \<open>The startup ingestion (app/ingest\_weather.py)\<close>

text \<open>
  The module works through a SQLAlchemy session, and every round trip to the storage
  may raise a \<open>SQLAlchemyError\<close>. A \<open>session\<close> holds what the storage has committed
  (\<open>durable\<close>), what the open transaction sees (\<open>working\<close>), and a fault plan: \<open>fuse\<close>
  is \<open>Some n\<close> when the round trip after the next \<open>n\<close> ones raises, \<open>None\<close> when none
  does. \<open>calls\<close> records, in order, the calls that open, roll back and close the
  session.
\<close>

datatype call = SessionLocal | Rollback | Close

record session =
  durable :: database
  working :: database
  fuse :: "nat option"
  calls :: "call list"

definition fresh :: "database \<Rightarrow> nat option \<Rightarrow> session" where
  "fresh db k = \<lparr>durable = db, working = db, fuse = k, calls = []\<rparr>"

definition spend :: "session \<Rightarrow> session" where
  "spend s = s\<lparr>fuse := map_option (\<lambda>n. n - 1) (fuse s)\<rparr>"

definition session_query :: "(database \<Rightarrow> 'a) \<Rightarrow> session \<Rightarrow> (error + 'a) \<times> session" where
  "session_query f s =
     (if fuse s = Some 0 then (Inl SQLAlchemyError, s) else (Inr (f (working s)), spend s))"

definition session_execute ::
  "(database \<Rightarrow> database) \<Rightarrow> session \<Rightarrow> (error + unit) \<times> session" where
  "session_execute f s =
     (if fuse s = Some 0 then (Inl SQLAlchemyError, s)
      else (Inr (), spend (s\<lparr>working := f (working s)\<rparr>)))"

definition session_commit :: "session \<Rightarrow> (error + unit) \<times> session" where
  "session_commit s =
     (if fuse s = Some 0 then (Inl SQLAlchemyError, s)
      else (Inr (), spend (s\<lparr>durable := working s\<rparr>)))"

definition session_rollback :: "session \<Rightarrow> session" where
  "session_rollback s = s\<lparr>working := durable s, calls := calls s @ [Rollback]\<rparr>"

definition session_close :: "session \<Rightarrow> session" where
  "session_close s = s\<lparr>working := durable s, calls := calls s @ [Close]\<rparr>"

text \<open>Sequencing: an exception of the first step skips the second.\<close>

definition then_do ::
  "(session \<Rightarrow> (error + 'a) \<times> session) \<Rightarrow> ('a \<Rightarrow> session \<Rightarrow> (error + 'b) \<times> session)
     \<Rightarrow> session \<Rightarrow> (error + 'b) \<times> session" where
  "then_do m f s = (case m s of (Inl e, s') \<Rightarrow> (Inl e, s') | (Inr x, s') \<Rightarrow> f x s')"

definition INGESTION_KEY :: string where
  "INGESTION_KEY = ''weather_ingested_v1''"

text \<open>
  \<open>already_ingested\<close> (lines 71 to 94): the marker row decides when there is one;
  otherwise both row counts are read.
\<close>

definition already_ingested :: "session \<Rightarrow> (error + bool) \<times> session" where
  "already_ingested =
     then_do (session_query (\<lambda>db. map_of (ingestion_state db) INGESTION_KEY))
       (\<lambda>marker.
          case marker of
            Some v \<Rightarrow> (\<lambda>s. (Inr v, s))
          | None \<Rightarrow>
              then_do (session_query (\<lambda>db. length (weather db)))
                (\<lambda>weather_count.
                   then_do (session_query (\<lambda>db. length (weather_stats db)))
                     (\<lambda>stats_count s. (Inr (0 < weather_count \<and> 0 < stats_count), s))))"

text \<open>\<open>mark_ingested\<close> (lines 97 to 101): \<open>merge\<close> of the marker row, then \<open>commit\<close>.\<close>

definition mark_ingested :: "session \<Rightarrow> (error + unit) \<times> session" where
  "mark_ingested =
     then_do
       (session_execute
          (\<lambda>db. db\<lparr>ingestion_state := AList.update INGESTION_KEY True (ingestion_state db)\<rparr>))
       (\<lambda>_. session_commit)"

text \<open>
  \<open>ON CONFLICT (...) DO NOTHING\<close> for one proposed row: a row whose key is in the table
  is dropped, any other is added.
\<close>

definition insert_new :: "('k \<times> 'v) list \<Rightarrow> 'k \<times> 'v \<Rightarrow> ('k \<times> 'v) list" where
  "insert_new t kv = (if map_of t (fst kv) = None then t @ [kv] else t)"

text \<open>
  \<open>ingest_weather\<close> (lines 107 to 132) and \<open>ingest_stats\<close> (lines 135 to 155). The rows
  are the loader's dictionaries, here already as key and measurements. The number
  returned is the statement's row count where the driver reports one: the rows added.
\<close>

definition ingest_weather :: "weather_row list \<Rightarrow> session \<Rightarrow> (error + nat) \<times> session" where
  "ingest_weather rows s =
     (if rows = [] then (Inr 0, s)
      else
        then_do (session_execute (\<lambda>db. db\<lparr>weather := foldl insert_new (weather db) rows\<rparr>))
          (\<lambda>_. then_do session_commit
             (\<lambda>_ s'. (Inr (length (weather (working s')) - length (weather (working s))), s')))
          s)"

definition ingest_stats :: "stats_row list \<Rightarrow> session \<Rightarrow> (error + nat) \<times> session" where
  "ingest_stats rows s =
     (if rows = [] then (Inr 0, s)
      else
        then_do
          (session_execute (\<lambda>db. db\<lparr>weather_stats := foldl insert_new (weather_stats db) rows\<rparr>))
          (\<lambda>_. then_do session_commit
             (\<lambda>_ s'. (Inr (length (weather_stats (working s')) - length (weather_stats (working s))), s')))
          s)"

text \<open>
  \<open>run_startup_ingestion\<close> (lines 188 to 231). \<open>weather_rows\<close> and \<open>stats_rows\<close> are
  what \<open>load_weather_rows\<close> and \<open>load_stats_rows\<close> return (the stubs of the source
  return the empty list). \<open>ensure_tables_exist\<close> runs before the \<open>try\<close>; the handler
  rolls back on a \<open>SQLAlchemyError\<close> and raises it again; \<open>finally\<close> closes the session.
\<close>

datatype startup = AlreadyPresent | Done nat nat

definition startup_body ::
  "weather_row list \<Rightarrow> stats_row list \<Rightarrow> session \<Rightarrow> (error + startup) \<times> session" where
  "startup_body weather_rows stats_rows =
     then_do already_ingested
       (\<lambda>skip.
          if skip then (\<lambda>s. (Inr AlreadyPresent, s))
          else
            then_do (ingest_weather weather_rows)
              (\<lambda>w_ins.
                 then_do (ingest_stats stats_rows)
                   (\<lambda>s_ins.
                      then_do mark_ingested (\<lambda>_ s. (Inr (Done w_ins s_ins), s)))))"

definition run_startup_ingestion ::
  "weather_row list \<Rightarrow> stats_row list \<Rightarrow> session \<Rightarrow> (error + startup) \<times> session" where
  "run_startup_ingestion weather_rows stats_rows s0 =
     (case session_execute (\<lambda>db. db) s0 of
        (Inl e, s) \<Rightarrow> (Inl e, s)
      | (Inr _, s) \<Rightarrow>
          (case startup_body weather_rows stats_rows (s\<lparr>calls := calls s @ [SessionLocal]\<rparr>) of
             (Inl e, s') \<Rightarrow>
               (Inl e, session_close (if e = SQLAlchemyError then session_rollback s' else s'))
           | (Inr r, s') \<Rightarrow> (Inr r, session_close s')))"

section \<open>The aggregation (compute\_stats.py)\<close>

text \<open>
  The query of \<open>main\<close> (lines 58 to 79). \<open>AVG\<close> and \<open>SUM\<close> skip \<open>NULL\<close> and are \<open>NULL\<close>
  when nothing is left; the groups are the pairs of a station and the year of a date
  that occur in \<open>weather\<close>.
\<close>

fun non_null :: "'a option list \<Rightarrow> 'a list" where
  "non_null [] = []"
| "non_null (None # vs) = non_null vs"
| "non_null (Some x # vs) = x # non_null vs"

definition sql_avg :: "real option list \<Rightarrow> real option" where
  "sql_avg vs =
     (if non_null vs = [] then None
      else Some (sum_list (non_null vs) / real (length (non_null vs))))"

definition sql_sum :: "real option list \<Rightarrow> real option" where
  "sql_sum vs = (if non_null vs = [] then None else Some (sum_list (non_null vs)))"

definition group_key :: "weather_row \<Rightarrow> string \<times> int" where
  "group_key r = (fst (fst r), int (year (snd (fst r))))"

definition max_temp_c :: "weather_row \<Rightarrow> real option" where
  "max_temp_c r = fst (snd r)"

definition min_temp_c :: "weather_row \<Rightarrow> real option" where
  "min_temp_c r = fst (snd (snd r))"

definition precip_cm :: "weather_row \<Rightarrow> real option" where
  "precip_cm r = snd (snd (snd r))"

definition group_rows :: "weather_row list \<Rightarrow> string \<times> int \<Rightarrow> weather_row list" where
  "group_rows t k = filter (\<lambda>r. group_key r = k) t"

definition stats_query :: "weather_row list \<Rightarrow> stats_row list" where
  "stats_query t =
     map (\<lambda>k. (k, (sql_avg (map max_temp_c (group_rows t k)),
                    sql_avg (map min_temp_c (group_rows t k)),
                    sql_sum (map precip_cm (group_rows t k)))))
       (remdups (map group_key t))"

text \<open>
  The rest of \<open>main\<close> (lines 82 to 96). Each result row becomes a \<open>WeatherStats\<close>
  object that has no \<open>id\<close>. \<open>Session.merge\<close> reconciles an object with a stored row
  through the primary key only, which is \<open>id\<close>, so it takes every such object for a new
  one, whatever \<open>weather_stats\<close> holds; \<open>commit\<close> then sends one \<open>INSERT\<close> per
  object. When a row with the station and year of a result row is already stored, the
  unique constraint \<open>uq_stats_station_year\<close> refuses the \<open>INSERT\<close>: \<open>commit\<close> raises
  \<open>IntegrityError\<close> and nothing of the run is stored. Otherwise the rows are added and
  \<open>rows_written\<close> is their number.
\<close>

definition compute_stats_main :: "database \<Rightarrow> (error + nat) \<times> database" where
  "compute_stats_main db =
     (let results = stats_query (weather db)
      in if list_ex (\<lambda>r. map_of (weather_stats db) (fst r) \<noteq> None) results
         then (Inl IntegrityError, db)
         else (Inr (length results), db\<lparr>weather_stats := weather_stats db @ results\<rparr>))"

section \<open>Notions used to state the properties\<close>

text \<open>
  The words of the specification for the date field: exactly eight decimal digits.
\<close>

definition eight_decimal_digits :: "string \<Rightarrow> bool" where
  "eight_decimal_digits f = (length f = 8 \<and> list_all py_isdecimal f)"

definition is_ascii :: "char \<Rightarrow> bool" where
  "is_ascii c = ((of_char c :: nat) < 128)"

text \<open>
  The row that lines 112 to 130 of \<open>main\<close> build from a line that passed the parser's
  test, or the exception of the conversion; \<open>ingest_line\<close> appends this row.
\<close>

definition line_row :: "settings \<Rightarrow> string \<Rightarrow> string \<Rightarrow> error + row" where
  "line_row cfg station_id line =
     (let parts = py_split (CHR 0x09) (py_rstrip (CHR 0x0A) line);
          datestr = py_strip (parts ! 0)
      in case temp_c (parse_int (max_str_digits cfg) (parts ! 1)) of
           Inl e \<Rightarrow> Inl e
         | Inr max_c \<Rightarrow>
        (case temp_c (parse_int (max_str_digits cfg) (parts ! 2)) of
           Inl e \<Rightarrow> Inl e
         | Inr min_c \<Rightarrow>
        (case precip_cm_of (parse_int (max_str_digits cfg) (parts ! 3)) of
           Inl e \<Rightarrow> Inl e
         | Inr precip \<Rightarrow>
             Inr (station_id,
                  take 4 datestr @ ''-'' @ take 2 (drop 4 datestr) @ ''-'' @ take 2 (drop 6 datestr),
                  max_c, min_c, precip))))"

text \<open>The rows of the accepted lines of one file, and of all files, in reading order.\<close>

definition file_rows :: "settings \<Rightarrow> string \<Rightarrow> string list \<Rightarrow> row list" where
  "file_rows cfg station_id lines =
     concat (map (\<lambda>l. if line_ok l
                       then (case line_row cfg station_id l of Inl e \<Rightarrow> [] | Inr r \<Rightarrow> [r])
                       else []) lines)"

definition rows_of :: "settings \<Rightarrow> (string \<times> string list) list \<Rightarrow> row list" where
  "rows_of cfg files = concat (map (\<lambda>fp. file_rows cfg (fst fp) (snd fp)) files)"

text \<open>The size at which the buffer is flushed: \<open>COMMIT_EVERY\<close>, and 1 when that is below 1.\<close>

definition batch_size :: "settings \<Rightarrow> nat" where
  "batch_size cfg = nat (max 1 (COMMIT_EVERY cfg))"

text \<open>
  The invariant of the loops for \<open>rows\<close>, the rows of the lines accepted so far: they are
  the committed batches followed by the buffer, every committed batch has the batch
  size, the buffer is shorter, and \<open>upserts\<close> counts the committed rows.
\<close>

definition batching_inv :: "nat \<Rightarrow> ingest_state \<Rightarrow> row list \<Rightarrow> bool" where
  "batching_inv n s rows =
     (concat (flushed s) @ batch s = rows
      \<and> list_all (\<lambda>b. length b = n) (flushed s)
      \<and> length (batch s) < n
      \<and> upserts s = length (concat (flushed s)))"

text \<open>A line of a station file with the given four fields, for the examples.\<close>

definition tsv_line :: "string \<Rightarrow> string \<Rightarrow> string \<Rightarrow> string \<Rightarrow> string" where
  "tsv_line a b c d = a @ [CHR 0x09] @ b @ [CHR 0x09] @ c @ [CHR 0x09] @ d @ [CHR 0x0A]"

section \<open>Properties\<close>

subsection \<open>Helper facts on strings\<close>

lemma dropWhile_keep_head:
  "xs \<noteq> [] \<Longrightarrow> \<not> P (hd xs) \<Longrightarrow> dropWhile P xs = xs"
  by (cases xs) simp_all

lemma strip_plain:
  "s \<noteq> [] \<Longrightarrow> \<not> py_isspace (hd s) \<Longrightarrow> \<not> py_isspace (last s) \<Longrightarrow> py_strip s = s"
proof -
  assume a: "s \<noteq> []" "\<not> py_isspace (hd s)" "\<not> py_isspace (last s)"
  have "dropWhile py_isspace s = s"
    using a by (simp add: dropWhile_keep_head)
  moreover have "dropWhile py_isspace (rev s) = rev s"
    using a by (simp add: dropWhile_keep_head hd_rev)
  ultimately show ?thesis
    by (simp add: py_strip_def)
qed

lemma int_digits_zeros:
  "int_digits (replicate n (CHR ''0'')) acc True = Some (acc * 10 ^ n)"
  by (induction n arbitrary: acc) (simp_all add: py_isdecimal_def digit_val_def)

subsection \<open>Helper facts on sessions and pages\<close>

lemma fresh_simps:
  "durable (fresh db k) = db" "working (fresh db k) = db" "fuse (fresh db k) = k"
  "calls (fresh db k) = []"
  by (simp_all add: fresh_def)

lemma spend_simps:
  "durable (spend s) = durable s" "working (spend s) = working s" "calls (spend s) = calls s"
  "fuse (spend s) = map_option (\<lambda>n. n - 1) (fuse s)"
  by (simp_all add: spend_def)

lemma spend_None: "fuse s = None \<Longrightarrow> spend s = s"
  by (simp add: spend_def)

lemma paginate_small: "xs \<noteq> [] \<Longrightarrow> length xs \<le> n \<Longrightarrow> paginate n xs = [xs]"
  by (subst paginate.simps, subst paginate.simps) (cases xs; auto)

lemmas eval_strings =
  py_strip_def py_isspace_def py_rstrip_def py_isdigit_def py_isdigit_char_def py_isdecimal_def
  digit_val_def py_int_def parse_int_def

lemmas eval_ingest =
  main_def run_ingest_def initial_state_def ingest_line_def flush_def execute_values_def
  upsert_statement_def cast_row_def date_in_def valid_date_def days_in_month_def leap_year_def
  nat_of_digits_def upsert_row_def temp_c_def precip_cm_of_def int_truediv_def Let_def

lemmas eval_session =
  already_ingested_def then_do_def session_query_def session_execute_def session_commit_def
  session_rollback_def session_close_def mark_ingested_def ingest_weather_def ingest_stats_def
  startup_body_def run_startup_ingestion_def insert_new_def

subsection \<open>C10: a marker row with completed = false\<close>

text \<open>
  C10: when the marker row exists with \<open>completed = false\<close>, \<open>already_ingested\<close> answers
  that ingestion has not been done, whatever rows \<open>weather\<close> and \<open>weather_stats\<close> hold,
  and it does so after one round trip to the storage only (the read of the marker): the
  row counts are not read. This holds under every fault plan that lets the first round
  trip succeed, also the plan \<open>Some 1\<close> under which a second round trip would raise.
\<close>

theorem marker_false_runs:
  "map_of (ingestion_state db) INGESTION_KEY = Some False \<and> k \<noteq> Some 0
     \<longrightarrow> already_ingested (fresh db k) = (Inr False, spend (fresh db k))"
  by (simp add: already_ingested_def then_do_def session_query_def fresh_simps)

theorem marker_false_runs_witness:
  "already_ingested
     (fresh \<lparr>weather = [((''S1'', Date 1985 1 1), (Some 1, None, None))],
             weather_stats = [((''S1'', 1985), (Some 1, None, None))],
             ingestion_state = [(INGESTION_KEY, False)]\<rparr> (Some 1))
   = (Inr False,
      fresh \<lparr>weather = [((''S1'', Date 1985 1 1), (Some 1, None, None))],
             weather_stats = [((''S1'', 1985), (Some 1, None, None))],
             ingestion_state = [(INGESTION_KEY, False)]\<rparr> (Some 0))"
  using marker_false_runs [of "\<lparr>weather = [((''S1'', Date 1985 1 1), (Some 1, None, None))],
             weather_stats = [((''S1'', 1985), (Some 1, None, None))],
             ingestion_state = [(INGESTION_KEY, False)]\<rparr>" "Some 1"]
  by (simp add: spend_def fresh_def)

subsection \<open>C5: the guard when there is no marker row\<close>

text \<open>
  C5, as the spec states it, fails for the guard that knows the marker: without a
  marker row \<open>already_ingested\<close> reads the row counts of both \<open>weather\<close> and
  \<open>weather_stats\<close>, and a store with observations but no statistics is not skipped.
\<close>

theorem stats_empty_not_skipped:
  "fst (already_ingested
     (fresh \<lparr>weather = [((''S1'', Date 1985 1 1), (Some 1, None, None))],
             weather_stats = [],
             ingestion_state = []\<rparr> None)) = Inr False"
  by (simp add: already_ingested_def then_do_def session_query_def fresh_simps spend_simps)

text \<open>
  C5, amended: when no marker row exists (and no round trip fails), \<open>already_ingested\<close>
  reports skip exactly when both \<open>weather\<close> and \<open>weather_stats\<close> hold at least one row.
  The batch job \<open>main\<close>, which has no marker, skips when \<open>FORCE_INGEST\<close> is unset
  exactly when \<open>weather\<close> holds at least one row.
\<close>

theorem guard_without_marker:
  "(map_of (ingestion_state db) INGESTION_KEY = None
      \<longrightarrow> fst (already_ingested (fresh db None))
            = Inr (weather db \<noteq> [] \<and> weather_stats db \<noteq> []))
   \<and> (py_strip (database_url cfg) \<noteq> [] \<and> \<not> FORCE_INGEST cfg
      \<longrightarrow> (fst (main cfg t) = Inr (Skipped (length t))) = (t \<noteq> []))"
  by (auto simp: already_ingested_def then_do_def session_query_def fresh_simps spend_simps
       main_def Let_def split: option.splits prod.splits)

theorem guard_without_marker_witness:
  "fst (already_ingested
     (fresh \<lparr>weather = [((''S1'', Date 1985 1 1), (Some 1, None, None))],
             weather_stats = [((''S1'', 1985), (Some 1, None, None))],
             ingestion_state = []\<rparr> None)) = Inr True
   \<and> fst (main \<lparr>database_url = ''postgresql://db/weather'', wx_files = None,
                 COMMIT_EVERY = 20000, FORCE_INGEST = False, max_str_digits = 4300\<rparr>
            [((''S1'', Date 1985 1 1), (Some 1, None, None))]) = Inr (Skipped 1)"
  using guard_without_marker [of
      "\<lparr>weather = [((''S1'', Date 1985 1 1), (Some 1, None, None))],
        weather_stats = [((''S1'', 1985), (Some 1, None, None))],
        ingestion_state = []\<rparr>"
      "\<lparr>database_url = ''postgresql://db/weather'', wx_files = None,
        COMMIT_EVERY = 20000, FORCE_INGEST = False, max_str_digits = 4300\<rparr>"
      "[((''S1'', Date 1985 1 1), (Some 1, None, None))]"]
  by (simp add: py_strip_def py_isspace_def)

subsection \<open>C6: the force flag\<close>

text \<open>
  C6, as the spec states it, fails for the guard that knows the marker: the startup
  ingestion never reads \<open>FORCE_INGEST\<close>. With the variable set to \<open>1\<close> in the
  environment and a marker row with \<open>completed = true\<close>, \<open>run_startup_ingestion\<close> skips
  and stores none of the rows it was given.
\<close>

theorem startup_ignores_force:
  "force_ingest_of_env (Some ''1'')
   \<and> run_startup_ingestion [((''S1'', Date 1985 1 1), (Some 1, None, None))] []
       (fresh \<lparr>weather = [], weather_stats = [], ingestion_state = [(INGESTION_KEY, True)]\<rparr> None)
     = (Inr AlreadyPresent,
        \<lparr>durable = \<lparr>weather = [], weather_stats = [], ingestion_state = [(INGESTION_KEY, True)]\<rparr>,
         working = \<lparr>weather = [], weather_stats = [], ingestion_state = [(INGESTION_KEY, True)]\<rparr>,
         fuse = None, calls = [SessionLocal, Close]\<rparr>)"
  by (simp add: force_ingest_of_env_def py_lower_char_def eval_strings eval_session
        fresh_def spend_def)

text \<open>
  C6, amended: in the batch job \<open>main\<close>, whenever \<open>FORCE_INGEST\<close> is set the guard never
  answers skip, whatever rows \<open>weather\<close> holds: with a database URL and a data
  directory, \<open>main\<close> is the ingestion run (that job has no marker). The startup
  ingestion has no force flag: when the marker row has \<open>completed = true\<close> it skips.
\<close>

theorem force_never_skips:
  "(FORCE_INGEST cfg \<longrightarrow> fst (main cfg t) \<noteq> Inr (Skipped n))
   \<and> (FORCE_INGEST cfg \<and> py_strip (database_url cfg) \<noteq> [] \<and> wx_files cfg = Some files
      \<longrightarrow> main cfg t =
           (case run_ingest cfg files t of
              (Some e, s) \<Rightarrow> (Inl e, table s)
            | (None, s) \<Rightarrow>
                (Inr (Ingested (length files) (total_lines s) (upserts s) (skipped_bad_lines s)),
                 table s)))
   \<and> (map_of (ingestion_state db) INGESTION_KEY = Some True
      \<longrightarrow> fst (run_startup_ingestion weather_rows stats_rows (fresh db None))
            = Inr AlreadyPresent)"
  by (auto simp: main_def Let_def eval_session fresh_simps spend_simps
        split: option.splits prod.splits)

theorem force_never_skips_witness:
  "main \<lparr>database_url = ''postgresql://db/weather'',
         wx_files = Some [(''S1'', [''19850101'' @ [CHR 0x09] @ ''123'' @ [CHR 0x09] @ ''-9999''
                                     @ [CHR 0x09] @ ''100'' @ [CHR 0x0A]])],
         COMMIT_EVERY = 20000, FORCE_INGEST = True, max_str_digits = 4300\<rparr>
      [((''S1'', Date 1985 1 1), (None, None, None))]
   = (Inr (Ingested 1 1 1 0), [((''S1'', Date 1985 1 1), (Some 12.3, None, Some 1))])
   \<and> fst (run_startup_ingestion [] []
       (fresh \<lparr>weather = [], weather_stats = [], ingestion_state = [(INGESTION_KEY, True)]\<rparr> None))
     = Inr AlreadyPresent"
  using force_never_skips [of
      "\<lparr>database_url = ''postgresql://db/weather'',
         wx_files = Some [(''S1'', [''19850101'' @ [CHR 0x09] @ ''123'' @ [CHR 0x09] @ ''-9999''
                                     @ [CHR 0x09] @ ''100'' @ [CHR 0x0A]])],
         COMMIT_EVERY = 20000, FORCE_INGEST = True, max_str_digits = 4300\<rparr>"
      "[((''S1'', Date 1985 1 1), (None, None, None))]" 1
      "[(''S1'', [''19850101'' @ [CHR 0x09] @ ''123'' @ [CHR 0x09] @ ''-9999''
                                     @ [CHR 0x09] @ ''100'' @ [CHR 0x0A]])]"
      "\<lparr>weather = [], weather_stats = [], ingestion_state = [(INGESTION_KEY, True)]\<rparr>" "[]" "[]"]
  by (simp add: eval_strings eval_ingest paginate_small)

subsection \<open>Helper facts on the upsert statement\<close>

lemma cast_rows_append:
  "cast_rows (xs @ ys) =
     (case cast_rows xs of
        None \<Rightarrow> None
      | Some a \<Rightarrow> (case cast_rows ys of None \<Rightarrow> None | Some b \<Rightarrow> Some (a @ b)))"
  by (induction xs) (auto split: option.splits)

lemma concat_paginate: "0 < n \<Longrightarrow> concat (paginate n xs) = xs"
proof (induction n xs rule: paginate.induct)
  case (1 n xs)
  then show ?case
    by (subst paginate.simps) auto
qed

lemma length_update:
  "length (AList.update k v al) = (if k \<in> fst ` set al then length al else Suc (length al))"
  by (induction al) auto

lemma map_of_foldl_upsert:
  "map_of (foldl upsert_row t kvs) = map_of t ++ map_of (rev kvs)"
proof (induction kvs arbitrary: t)
  case Nil
  then show ?case by simp
next
  case (Cons kv kvs)
  have step: "map_of (upsert_row t kv) = (map_of t)(fst kv \<mapsto> snd kv)"
    by (simp add: upsert_row_def update_conv')
  have "map_of (foldl upsert_row t (kv # kvs)) = map_of (upsert_row t kv) ++ map_of (rev kvs)"
    using Cons.IH by simp
  also have "\<dots> = map_of t ++ map_of (rev (kv # kvs))"
    unfolding step by (simp add: fun_eq_iff map_add_def split: option.splits)
  finally show ?case .
qed

lemma run_pages_Inr:
  "run_pages t ps = Inr t' \<Longrightarrow> \<exists>kvs. cast_rows (concat ps) = Some kvs \<and> t' = foldl upsert_row t kvs"
proof (induction ps arbitrary: t)
  case Nil
  then show ?case by simp
next
  case (Cons p ps)
  from Cons.prems obtain t1 where p: "upsert_statement t p = Inr t1" and r: "run_pages t1 ps = Inr t'"
    by (auto split: sum.splits)
  from p obtain a where a: "cast_rows p = Some a" "t1 = foldl upsert_row t a"
    by (auto simp: upsert_statement_def split: option.splits if_splits)
  from Cons.IH [OF r] obtain b where b: "cast_rows (concat ps) = Some b" "t' = foldl upsert_row t1 b"
    by blast
  show ?case
    using a b by (simp add: cast_rows_append)
qed

lemma execute_values_Inr:
  "execute_values t rows = Inr t' \<Longrightarrow> \<exists>kvs. cast_rows rows = Some kvs \<and> t' = foldl upsert_row t kvs"
  using run_pages_Inr [of t "paginate 5000 rows" t']
  by (simp add: execute_values_def concat_paginate)

subsection \<open>C1: what a write does on a key collision\<close>

text \<open>
  C1, as the spec states it, fails: not every write of an observation overwrites.
  \<open>ingest_weather\<close> of the startup module (\<open>ON CONFLICT DO NOTHING\<close>) keeps the stored
  row when the key collides and drops the incoming values.
\<close>

theorem startup_write_keeps_old_row:
  "durable (snd (ingest_weather [((''S1'', Date 1985 1 1), (Some 20, Some 10, Some 3))]
       (fresh \<lparr>weather = [((''S1'', Date 1985 1 1), (Some 1, None, None))],
               weather_stats = [], ingestion_state = []\<rparr> None)))
   = \<lparr>weather = [((''S1'', Date 1985 1 1), (Some 1, None, None))],
      weather_stats = [], ingestion_state = []\<rparr>"
  by (simp add: eval_session fresh_def spend_def)

text \<open>
  C1, amended: every write of the batch job (\<open>upsert_sql\<close>, \<open>ON CONFLICT DO UPDATE\<close>)
  whose key collides with a stored row overwrites all three measurement fields of that
  row with the incoming values and adds no row; rows with other keys are left as they
  are; and after a batch that the storage accepted, each key of the batch holds the
  values of the last row of the batch with that key (last write wins). The startup
  module's \<open>ingest_weather\<close> instead leaves a stored row with the same key as it is.
\<close>

theorem upsert_overwrites:
  "map_of (upsert_row t (k, v)) k = Some v
   \<and> (k' \<noteq> k \<longrightarrow> map_of (upsert_row t (k, v)) k' = map_of t k')
   \<and> (k \<in> fst ` set t \<longrightarrow> length (upsert_row t (k, v)) = length t)
   \<and> (execute_values t rows = Inr t'
      \<longrightarrow> (\<exists>kvs. cast_rows rows = Some kvs \<and> map_of t' = map_of t ++ map_of (rev kvs)))
   \<and> (map_of t k \<noteq> None \<longrightarrow> insert_new t (k, v) = t)"
proof -
  have "execute_values t rows = Inr t'
      \<longrightarrow> (\<exists>kvs. cast_rows rows = Some kvs \<and> map_of t' = map_of t ++ map_of (rev kvs))"
    using execute_values_Inr [of t rows t'] map_of_foldl_upsert by blast
  then show ?thesis
    by (simp add: upsert_row_def update_conv' length_update insert_new_def)
qed

theorem upsert_overwrites_witness:
  "map_of (upsert_row [((''S1'', Date 1985 1 1), (Some 1, None, None))]
       ((''S1'', Date 1985 1 1), (Some 20, Some 10, Some 3))) (''S1'', Date 1985 1 2) = None
   \<and> length (upsert_row [((''S1'', Date 1985 1 1), (Some 1, None, None))]
       ((''S1'', Date 1985 1 1), (Some 20, Some 10, Some 3))) = 1
   \<and> execute_values [((''S1'', Date 1985 1 1), (Some 1, None, None))]
        [(''S1'', ''1985-01-01'', Some 20, Some 10, Some 3)]
      = Inr [((''S1'', Date 1985 1 1), (Some 20, Some 10, Some 3))]
   \<and> insert_new [((''S1'', Date 1985 1 1), (Some 1, None, None))]
        ((''S1'', Date 1985 1 1), (Some 20, Some 10, Some 3))
      = [((''S1'', Date 1985 1 1), (Some 1, None, None))]"
  using upsert_overwrites [of "[((''S1'', Date 1985 1 1), (Some 1, None, None))]"
      "(''S1'', Date 1985 1 1)" "(Some 20, Some 10, Some 3)" "(''S1'', Date 1985 1 2)"
      "[(''S1'', ''1985-01-01'', Some 20, Some 10, Some 3)]"
      "[((''S1'', Date 1985 1 1), (Some 20, Some 10, Some 3))]"]
  by (simp add: eval_ingest eval_strings paginate_small insert_new_def)

subsection \<open>C3: the yearly aggregates\<close>

text \<open>
  C3 states a property that the code breaks by a defect. The comment in \<open>main\<close> says
  that \<open>db.merge\<close> inserts a row that is not present and updates one that is; but the
  objects it is given have no primary key, so every one is inserted. The first run over
  the observations of the specification's example stores the stated aggregates
  (\<open>avg_max = 10\<close>, \<open>avg_min = 2.5\<close>, a null total). Any later run over a store that
  already holds the row of a group raises \<open>IntegrityError\<close> and leaves the old row:
  after a third observation with \<open>max = 30\<close> and \<open>precip = 4\<close> the stored average is
  still \<open>10\<close> instead of \<open>20\<close>, and the total is still null instead of \<open>4\<close>.
\<close>

theorem stats_rerun_raises:
  "compute_stats_main
     \<lparr>weather = [((''S1'', Date 1985 1 1), (Some 10, Some 0, None)),
                 ((''S1'', Date 1985 7 4), (None, Some 5, None))],
      weather_stats = [], ingestion_state = []\<rparr>
   = (Inr 1,
      \<lparr>weather = [((''S1'', Date 1985 1 1), (Some 10, Some 0, None)),
                  ((''S1'', Date 1985 7 4), (None, Some 5, None))],
       weather_stats = [((''S1'', 1985), (Some 10, Some 2.5, None))], ingestion_state = []\<rparr>)
   \<and> compute_stats_main
       \<lparr>weather = [((''S1'', Date 1985 1 1), (Some 10, Some 0, None)),
                   ((''S1'', Date 1985 7 4), (None, Some 5, None)),
                   ((''S1'', Date 1985 7 5), (Some 30, None, Some 4))],
        weather_stats = [((''S1'', 1985), (Some 10, Some 2.5, None))], ingestion_state = []\<rparr>
     = (Inl IntegrityError,
        \<lparr>weather = [((''S1'', Date 1985 1 1), (Some 10, Some 0, None)),
                    ((''S1'', Date 1985 7 4), (None, Some 5, None)),
                    ((''S1'', Date 1985 7 5), (Some 30, None, Some 4))],
         weather_stats = [((''S1'', 1985), (Some 10, Some 2.5, None))], ingestion_state = []\<rparr>)"
  by (simp add: compute_stats_main_def stats_query_def group_rows_def group_key_def
        max_temp_c_def min_temp_c_def precip_cm_def sql_avg_def sql_sum_def)

text \<open>
  A first aggregation run, over a store without statistics, does what C3 says: it
  raises nothing, writes one row per pair of a station and a year that occurs in
  \<open>weather\<close>, and the row of a group holds the \<open>AVG\<close>, \<open>AVG\<close> and \<open>SUM\<close> of the
  group's observations, which skip nulls and are null when every value is null.
\<close>

lemma query_keys: "map fst (stats_query t) = remdups (map group_key t)"
  by (simp add: stats_query_def comp_def)

theorem first_stats_run:
  "weather_stats db = [] \<longrightarrow>
     compute_stats_main db
       = (Inr (length (remdups (map group_key (weather db)))),
          db\<lparr>weather_stats := stats_query (weather db)\<rparr>)
     \<and> distinct (map fst (stats_query (weather db)))
     \<and> fst ` set (stats_query (weather db)) = group_key ` set (weather db)
     \<and> (k \<in> group_key ` set (weather db) \<longrightarrow>
          map_of (stats_query (weather db)) k =
            Some (sql_avg (map max_temp_c (filter (\<lambda>r. group_key r = k) (weather db))),
                  sql_avg (map min_temp_c (filter (\<lambda>r. group_key r = k) (weather db))),
                  sql_sum (map precip_cm (filter (\<lambda>r. group_key r = k) (weather db)))))"
proof
  assume e: "weather_stats db = []"
  have len: "length (stats_query (weather db)) = length (remdups (map group_key (weather db)))"
    using query_keys [of "weather db"] by (metis length_map)
  have run: "compute_stats_main db
       = (Inr (length (remdups (map group_key (weather db)))),
          db\<lparr>weather_stats := stats_query (weather db)\<rparr>)"
    using e len by (simp add: compute_stats_main_def Let_def list_ex_iff)
  have keyset: "fst ` set (stats_query (weather db)) = group_key ` set (weather db)"
    using query_keys [of "weather db"] by (metis list.set_map set_remdups)
  have look: "k \<in> group_key ` set (weather db) \<longrightarrow>
          map_of (stats_query (weather db)) k =
            Some (sql_avg (map max_temp_c (filter (\<lambda>r. group_key r = k) (weather db))),
                  sql_avg (map min_temp_c (filter (\<lambda>r. group_key r = k) (weather db))),
                  sql_sum (map precip_cm (filter (\<lambda>r. group_key r = k) (weather db))))"
    by (simp add: stats_query_def group_rows_def map_of_map_restrict restrict_map_def)
  show "compute_stats_main db
       = (Inr (length (remdups (map group_key (weather db)))),
          db\<lparr>weather_stats := stats_query (weather db)\<rparr>)
     \<and> distinct (map fst (stats_query (weather db)))
     \<and> fst ` set (stats_query (weather db)) = group_key ` set (weather db)
     \<and> (k \<in> group_key ` set (weather db) \<longrightarrow>
          map_of (stats_query (weather db)) k =
            Some (sql_avg (map max_temp_c (filter (\<lambda>r. group_key r = k) (weather db))),
                  sql_avg (map min_temp_c (filter (\<lambda>r. group_key r = k) (weather db))),
                  sql_sum (map precip_cm (filter (\<lambda>r. group_key r = k) (weather db)))))"
    using run keyset look by (simp add: query_keys)
qed

theorem first_stats_run_witness:
  "compute_stats_main
     \<lparr>weather = [((''S1'', Date 1985 1 1), (Some 10, Some 0, None)),
                 ((''S1'', Date 1985 7 4), (None, Some 5, None))],
      weather_stats = [], ingestion_state = []\<rparr>
   = (Inr 1,
      \<lparr>weather = [((''S1'', Date 1985 1 1), (Some 10, Some 0, None)),
                  ((''S1'', Date 1985 7 4), (None, Some 5, None))],
       weather_stats = [((''S1'', 1985), (Some 10, Some 2.5, None))], ingestion_state = []\<rparr>)
   \<and> map_of (stats_query [((''S1'', Date 1985 1 1), (Some 10, Some 0, None)),
                            ((''S1'', Date 1985 7 4), (None, Some 5, None))]) (''S1'', 1985)
     = Some (Some 10, Some 2.5, None)"
  using first_stats_run [of
      "\<lparr>weather = [((''S1'', Date 1985 1 1), (Some 10, Some 0, None)),
                 ((''S1'', Date 1985 7 4), (None, Some 5, None))],
        weather_stats = [], ingestion_state = []\<rparr>" "(''S1'', 1985)"]
  by (simp add: stats_query_def group_rows_def group_key_def max_temp_c_def min_temp_c_def
        precip_cm_def sql_avg_def sql_sum_def)

subsection \<open>Helper facts on the loops of the batch job\<close>

lemma ingest_line_eq:
  "ingest_line cfg sid line s =
     (if \<not> line_ok line
      then (None, s\<lparr>total_lines := total_lines s + 1, skipped_bad_lines := skipped_bad_lines s + 1\<rparr>)
      else (case line_row cfg sid line of
              Inl e \<Rightarrow> (Some e, s\<lparr>total_lines := total_lines s + 1\<rparr>)
            | Inr r \<Rightarrow>
                if COMMIT_EVERY cfg \<le> int (length (batch s)) + 1
                then flush (s\<lparr>total_lines := total_lines s + 1, batch := batch s @ [r]\<rparr>)
                else (None, s\<lparr>total_lines := total_lines s + 1, batch := batch s @ [r]\<rparr>)))"
  by (auto simp: ingest_line_def line_ok_def line_row_def Let_def split: sum.splits)

lemma flush_None:
  "flush s = (None, s') \<Longrightarrow>
     \<exists>t'. execute_values (table s) (batch s) = Inr t'
          \<and> s' = s\<lparr>table := t', upserts := upserts s + length (batch s),
                    flushed := flushed s @ [batch s], batch := []\<rparr>"
  by (auto simp: flush_def split: sum.splits)

lemma batch_size_pos: "0 < batch_size cfg"
  by (simp add: batch_size_def)

lemma ingest_line_step:
  assumes "ingest_line cfg sid line s = (None, s')" and "batching_inv (batch_size cfg) s R"
  shows "batching_inv (batch_size cfg) s' (R @ file_rows cfg sid [line])
         \<and> total_lines s' = total_lines s + 1
         \<and> skipped_bad_lines s' = skipped_bad_lines s + (if line_ok line then 0 else 1)
         \<and> length (file_rows cfg sid [line]) = (if line_ok line then 1 else 0)"
proof (cases "line_ok line")
  case False
  with assms show ?thesis
    by (auto simp: ingest_line_eq batching_inv_def file_rows_def)
next
  case True
  with assms(1) obtain r where r: "line_row cfg sid line = Inr r"
    by (auto simp: ingest_line_eq split: sum.splits)
  have rows: "file_rows cfg sid [line] = [r]"
    using True r by (simp add: file_rows_def)
  let ?s1 = "s\<lparr>total_lines := total_lines s + 1, batch := batch s @ [r]\<rparr>"
  show ?thesis
  proof (cases "COMMIT_EVERY cfg \<le> int (length (batch s)) + 1")
    case False
    then have "s' = ?s1"
      using assms(1) True r by (simp add: ingest_line_eq)
    moreover have "Suc (length (batch s)) < batch_size cfg"
      using False by (simp add: batch_size_def)
    ultimately show ?thesis
      using assms(2) True rows by (simp add: batching_inv_def)
  next
    case ce: True
    then have "flush ?s1 = (None, s')"
      using assms(1) True r by (simp add: ingest_line_eq)
    from flush_None [OF this] obtain t' where
      s': "s' = ?s1\<lparr>table := t', upserts := upserts ?s1 + length (batch ?s1),
                    flushed := flushed ?s1 @ [batch ?s1], batch := []\<rparr>"
      by blast
    have "Suc (length (batch s)) = batch_size cfg"
      using ce assms(2) by (auto simp: batch_size_def batching_inv_def)
    then show ?thesis
      using assms(2) True rows s' batch_size_pos [of cfg] by (simp add: batching_inv_def)
  qed
qed

lemma file_rows_Cons:
  "file_rows cfg sid (l # ls) = file_rows cfg sid [l] @ file_rows cfg sid ls"
  by (simp add: file_rows_def)

lemma ingest_lines_inv:
  "ingest_lines cfg sid ls s = (None, s') \<Longrightarrow> batching_inv (batch_size cfg) s R \<Longrightarrow>
     batching_inv (batch_size cfg) s' (R @ file_rows cfg sid ls)
     \<and> total_lines s' = total_lines s + length ls
     \<and> skipped_bad_lines s' = skipped_bad_lines s + length (filter (\<lambda>l. \<not> line_ok l) ls)
     \<and> length (file_rows cfg sid ls) = length (filter line_ok ls)"
proof (induction ls arbitrary: s R)
  case Nil
  then show ?case by (simp add: file_rows_def)
next
  case (Cons l ls)
  from Cons.prems(1) obtain s1 where
    l: "ingest_line cfg sid l s = (None, s1)" and ls: "ingest_lines cfg sid ls s1 = (None, s')"
    by (auto split: prod.splits option.splits)
  note a = ingest_line_step [OF l Cons.prems(2)]
  from a have inv1: "batching_inv (batch_size cfg) s1 (R @ file_rows cfg sid [l])" by simp
  note b = Cons.IH [OF ls inv1]
  show ?case
    using a b by (simp add: file_rows_Cons [of cfg sid l ls])
qed

lemma ingest_files_inv:
  "ingest_files cfg files s = (None, s') \<Longrightarrow> batching_inv (batch_size cfg) s R \<Longrightarrow>
     batching_inv (batch_size cfg) s' (R @ rows_of cfg files)
     \<and> total_lines s' = total_lines s + length (concat (map snd files))
     \<and> skipped_bad_lines s' =
         skipped_bad_lines s + length (filter (\<lambda>l. \<not> line_ok l) (concat (map snd files)))
     \<and> length (rows_of cfg files) = length (filter line_ok (concat (map snd files)))"
proof (induction files arbitrary: s R)
  case Nil
  then show ?case by (simp add: rows_of_def)
next
  case (Cons fp files)
  from Cons.prems(1) obtain s1 where
    l: "ingest_lines cfg (fst fp) (snd fp) s = (None, s1)"
    and ls: "ingest_files cfg files s1 = (None, s')"
    by (auto split: prod.splits option.splits)
  note a = ingest_lines_inv [OF l Cons.prems(2)]
  from a have inv1: "batching_inv (batch_size cfg) s1 (R @ file_rows cfg (fst fp) (snd fp))"
    by simp
  note b = Cons.IH [OF ls inv1]
  show ?case
    using a b by (simp add: rows_of_def)
qed

lemma paginate_chunks:
  "0 < n \<Longrightarrow> list_all (\<lambda>b. length b = n) F \<Longrightarrow> length b \<le> n \<Longrightarrow>
     paginate n (concat F @ b) = F @ (if b = [] then [] else [b])"
proof (induction F)
  case Nil
  then show ?case
    by (cases "b = []") (simp_all add: paginate_small, simp add: paginate.simps)
next
  case (Cons f F)
  then have "f \<noteq> []" by auto
  then show ?case
    using Cons by (subst paginate.simps) simp
qed

lemma run_ingest_inv:
  assumes "run_ingest cfg files t = (None, s)"
  shows "flushed s = paginate (batch_size cfg) (rows_of cfg files)
         \<and> batch s = []
         \<and> upserts s = length (rows_of cfg files)
         \<and> total_lines s = length (concat (map snd files))
         \<and> skipped_bad_lines s = length (filter (\<lambda>l. \<not> line_ok l) (concat (map snd files)))
         \<and> length (rows_of cfg files) = length (filter line_ok (concat (map snd files)))"
proof -
  from assms obtain s1 where
    f: "ingest_files cfg files (initial_state t) = (None, s1)"
    and fin: "(if batch s1 \<noteq> [] then flush s1 else (None, s1)) = (None, s)"
    by (auto simp: run_ingest_def split: prod.splits option.splits)
  have inv0: "batching_inv (batch_size cfg) (initial_state t) []"
    by (simp add: batching_inv_def initial_state_def batch_size_pos)
  note a = ingest_files_inv [OF f inv0]
  then have inv1: "batching_inv (batch_size cfg) s1 (rows_of cfg files)" by simp
  have pg: "paginate (batch_size cfg) (rows_of cfg files)
              = flushed s1 @ (if batch s1 = [] then [] else [batch s1])"
    using inv1 paginate_chunks [of "batch_size cfg" "flushed s1" "batch s1"] batch_size_pos [of cfg]
    by (simp add: batching_inv_def)
  have cat: "concat (flushed s1) @ batch s1 = rows_of cfg files"
    and ups: "upserts s1 = length (concat (flushed s1))"
    using inv1 by (simp_all add: batching_inv_def)
  have len: "length (concat (flushed s1)) + length (batch s1) = length (rows_of cfg files)"
    using cat by (metis length_append)
  have counts: "total_lines s1 = length (concat (map snd files))"
    "skipped_bad_lines s1 = length (filter (\<lambda>l. \<not> line_ok l) (concat (map snd files)))"
    "length (rows_of cfg files) = length (filter line_ok (concat (map snd files)))"
    using a by (simp_all add: initial_state_def)
  show ?thesis
  proof (cases "batch s1 = []")
    case True
    then have "s = s1" using fin by simp
    moreover have "upserts s1 = length (rows_of cfg files)"
      using ups len True by simp
    ultimately show ?thesis
      using pg True counts by simp
  next
    case False
    then have "flush s1 = (None, s)" using fin by simp
    from flush_None [OF this] obtain t' where
      s: "s = s1\<lparr>table := t', upserts := upserts s1 + length (batch s1),
                  flushed := flushed s1 @ [batch s1], batch := []\<rparr>"
      by blast
    have "upserts s = length (rows_of cfg files)"
      using s ups len by simp
    then show ?thesis
      using pg False counts s by simp
  qed
qed

lemma set_py_rstrip: "set (py_rstrip c s) \<subseteq> set s"
  using set_dropWhileD [of _ "\<lambda>x. x = c" "rev s"] by (auto simp: py_rstrip_def)

lemma set_py_strip: "set (py_strip s) \<subseteq> set s"
proof
  fix x
  assume "x \<in> set (py_strip s)"
  then have "x \<in> set (dropWhile py_isspace (rev (dropWhile py_isspace s)))"
    by (simp add: py_strip_def)
  then have "x \<in> set (dropWhile py_isspace s)"
    using set_dropWhileD by fastforce
  then show "x \<in> set s"
    by (rule set_dropWhileD)
qed

lemma py_split_nonempty: "py_split sep s \<noteq> []"
  by (induction s) (auto split: list.splits)

lemma set_py_split: "f \<in> set (py_split sep s) \<Longrightarrow> set f \<subseteq> set s"
proof (induction s arbitrary: f)
  case Nil
  then show ?case by simp
next
  case (Cons c s)
  show ?case
  proof (cases "c = sep")
    case True
    with Cons show ?thesis by auto
  next
    case False
    obtain g gs where g: "py_split sep s = g # gs"
      using py_split_nonempty [of sep s] by (cases "py_split sep s") auto
    with Cons.prems False have "f = c # g \<or> f \<in> set gs" by auto
    then show ?thesis
      using Cons.IH [of g] Cons.IH [of f] g by auto
  qed
qed

lemma ascii_digit: "is_ascii c \<Longrightarrow> py_isdigit_char c = py_isdecimal c"
  by (auto simp: is_ascii_def py_isdigit_char_def)

lemma line_ok_ascii:
  assumes "list_all is_ascii line"
  shows "line_ok line =
           (4 \<le> length (py_split (CHR 0x09) (py_rstrip (CHR 0x0A) line))
            \<and> eight_decimal_digits
                 (py_strip (hd (py_split (CHR 0x09) (py_rstrip (CHR 0x0A) line)))))"
proof -
  let ?parts = "py_split (CHR 0x09) (py_rstrip (CHR 0x0A) line)"
  have ne: "?parts \<noteq> []" by (rule py_split_nonempty)
  then have hd: "?parts ! 0 = hd ?parts" by (simp add: hd_conv_nth)
  have "hd ?parts \<in> set ?parts" using ne by simp
  then have "set (hd ?parts) \<subseteq> set line"
    using set_py_split set_py_rstrip by fastforce
  then have "set (py_strip (hd ?parts)) \<subseteq> set line"
    using set_py_strip by fastforce
  then have "list_all is_ascii (py_strip (hd ?parts))"
    using assms by (auto simp: list_all_iff)
  then have "list_all py_isdigit_char (py_strip (hd ?parts))
             = list_all py_isdecimal (py_strip (hd ?parts))"
    by (induction "py_strip (hd ?parts)") (auto simp: ascii_digit list_all_iff)
  then show ?thesis
    unfolding line_ok_def Let_def hd eight_decimal_digits_def py_isdigit_def by auto
qed

subsection \<open>C2: the unit converter\<close>

lemma py_split_field:
  "sep \<notin> set a \<Longrightarrow> py_split sep (a @ sep # rest) = a # py_split sep rest"
  by (induction a) (auto split: list.splits)

lemma py_split_last: "sep \<notin> set a \<Longrightarrow> py_split sep a = [a]"
  by (induction a) (auto split: list.splits)

lemma py_rstrip_snoc: "py_rstrip c (xs @ [c]) = py_rstrip c xs"
  by (simp add: py_rstrip_def)

lemma py_rstrip_plain: "xs \<noteq> [] \<Longrightarrow> last xs \<noteq> c \<Longrightarrow> py_rstrip c xs = xs"
  by (simp add: py_rstrip_def dropWhile_keep_head hd_rev)

lemma huge_parse:
  "parse_int 4300 (CHR ''1'' # replicate 400 (CHR ''0'')) = Some (10 ^ 400)"
proof -
  let ?s = "CHR ''1'' # replicate 400 (CHR ''0'')"
  have st: "py_strip ?s = ?s"
    by (rule strip_plain) (simp_all add: py_isspace_def)
  have ne: "?s \<noteq> ''-9999''" by simp
  have "py_int 4300 ?s = Some (10 ^ 400)"
    by (simp add: py_int_def st int_digits_zeros py_isdecimal_def digit_val_def)
  then show ?thesis
    using ne by (simp add: parse_int_def st)
qed

text \<open>
  C2 states a property that the code breaks by a defect: the conversion is not total.
  \<open>_parse_int\<close> turns every field that \<open>int\<close> rejects into null by catching
  \<open>ValueError\<close>, but a field of 401 digits is an integer that \<open>_parse_int\<close> returns, and
  dividing it by \<open>10.0\<close> raises \<open>OverflowError\<close>, which nothing catches. A line with
  such a field is not skipped as a bad line: \<open>main\<close> ends with the exception.
\<close>

theorem huge_field_raises:
  "temp_c (parse_int 4300 (CHR ''1'' # replicate 400 (CHR ''0''))) = Inl OverflowError
   \<and> main \<lparr>database_url = ''postgresql://db/weather'',
            wx_files = Some [(''S1'', [tsv_line ''19850101''
                                        (CHR ''1'' # replicate 400 (CHR ''0'')) ''-9999'' ''0''])],
            COMMIT_EVERY = 20000, FORCE_INGEST = False, max_str_digits = 4300\<rparr> []
     = (Inl OverflowError, [])"
proof -
  let ?h = "CHR ''1'' # replicate 400 (CHR ''0'')"
  let ?line = "tsv_line ''19850101'' ?h ''-9999'' ''0''"
  let ?cfg = "\<lparr>database_url = ''postgresql://db/weather'', wx_files = Some [(''S1'', [?line])],
            COMMIT_EVERY = 20000, FORCE_INGEST = False, max_str_digits = 4300\<rparr>"
  have a: "temp_c (parse_int 4300 ?h) = Inl OverflowError"
    by (simp add: huge_parse temp_c_def int_truediv_def)
  have body: "py_rstrip (CHR 0x0A) ?line
      = ''19850101'' @ CHR 0x09 # ?h @ CHR 0x09 # ''-9999'' @ CHR 0x09 # ''0''"
    using py_rstrip_snoc [of "CHR 0x0A" "''19850101'' @ CHR 0x09 # ?h @ CHR 0x09 # ''-9999'' @ CHR 0x09 # ''0''"]
    by (simp add: tsv_line_def py_rstrip_plain)
  have h: "CHR 0x09 \<notin> set ?h" by auto
  have parts: "py_split (CHR 0x09) (py_rstrip (CHR 0x0A) ?line) = [''19850101'', ?h, ''-9999'', ''0'']"
    unfolding body
    by (subst py_split_field, simp)
       (subst py_split_field [OF h], subst py_split_field, simp, subst py_split_last, simp_all)
  have ok: "line_ok ?line"
    unfolding line_ok_def parts by (simp add: eval_strings)
  have row: "line_row ?cfg ''S1'' ?line = Inl OverflowError"
    unfolding line_row_def parts using a by simp
  have "ingest_line ?cfg ''S1'' ?line (initial_state [])
          = (Some OverflowError, (initial_state [])\<lparr>total_lines := 1\<rparr>)"
    using ok row by (simp add: ingest_line_eq initial_state_def)
  then have "main ?cfg [] = (Inl OverflowError, [])"
    by (simp add: main_def run_ingest_def initial_state_def eval_strings)
  then show ?thesis
    using a by simp
qed

text \<open>
  Within the range of a float the conversion of the model does what the converter is
  meant to do: with \<open>x\<close> the field stripped of white space, both conversions give null
  when \<open>x\<close> is empty, is the sentinel \<open>-9999\<close> or is rejected by \<open>int\<close>; and when
  \<open>int\<close> reads \<open>x\<close> as \<open>i\<close> with a magnitude below \<open>2 ^ 1024 - 2 ^ 970\<close>, they give the
  exact quotients \<open>i / 10\<close> and \<open>i / 100\<close> (the code stores what its float divisions
  round them to).
\<close>

lemma field_conversion_in_range:
  "(py_strip s = [] \<or> py_strip s = ''-9999'' \<or> py_int n (py_strip s) = None
      \<longrightarrow> temp_c (parse_int n s) = Inr None \<and> precip_cm_of (parse_int n s) = Inr None)
   \<and> (py_strip s \<noteq> [] \<and> py_strip s \<noteq> ''-9999'' \<and> py_int n (py_strip s) = Some i
        \<and> \<bar>i\<bar> < 2 ^ 1024 - 2 ^ 970
      \<longrightarrow> temp_c (parse_int n s) = Inr (Some (real_of_int i / 10))
          \<and> precip_cm_of (parse_int n s) = Inr (Some (real_of_int i / 100)))"
  by (auto simp: parse_int_def temp_c_def precip_cm_of_def int_truediv_def Let_def)

lemma field_conversion_examples:
  "temp_c (parse_int 4300 ''123'') = Inr (Some 12.3)
   \<and> precip_cm_of (parse_int 4300 ''100'') = Inr (Some 1)
   \<and> temp_c (parse_int 4300 ''-9999'') = Inr None
   \<and> precip_cm_of (parse_int 4300 ''x1'') = Inr None"
proof -
  have a: "py_strip ''123'' = ''123''" "py_strip ''100'' = ''100''"
    "py_strip ''-9999'' = ''-9999''" "py_strip ''x1'' = ''x1''"
    by (simp_all add: py_strip_def py_isspace_def)
  have b: "py_int 4300 ''123'' = Some 123" "py_int 4300 ''100'' = Some 100"
    "py_int 4300 ''x1'' = None"
    by (simp_all add: py_int_def py_strip_def py_isspace_def py_isdecimal_def digit_val_def)
  show ?thesis
    using field_conversion_in_range [of "''123''" 4300 123] field_conversion_in_range [of "''100''" 4300 100]
      field_conversion_in_range [of "''-9999''" 4300 0] field_conversion_in_range [of "''x1''" 4300 0]
    by (simp add: a b)
qed

subsection \<open>C4: the line parser\<close>

text \<open>
  C4, as the spec states it, fails: the date field is stripped of white space before
  it is tested. A line whose first field is a blank followed by eight digits has a
  first field that is not exactly eight decimal digits, and yet is accepted: its row
  goes to the buffer and it is not counted as skipped.
\<close>

theorem padded_date_accepted:
  "\<not> eight_decimal_digits
       (hd (py_split (CHR 0x09)
              (py_rstrip (CHR 0x0A) (tsv_line '' 19850101'' ''123'' ''-9999'' ''100''))))
   \<and> ingest_line
        \<lparr>database_url = ''postgresql://db/weather'', wx_files = None,
         COMMIT_EVERY = 20000, FORCE_INGEST = False, max_str_digits = 4300\<rparr>
        ''S1'' (tsv_line '' 19850101'' ''123'' ''-9999'' ''100'') (initial_state [])
      = (None,
         \<lparr>total_lines = 1, upserts = 0, skipped_bad_lines = 0,
          batch = [(''S1'', ''1985-01-01'', Some 12.3, None, Some 1)],
          table = [], flushed = []\<rparr>)"
  by (simp add: tsv_line_def eight_decimal_digits_def eval_strings eval_ingest)

text \<open>
  C4, amended: a line that fails the parser's test is counted as skipped and does not
  abort the run; a line that passes is never counted as skipped and, unless its
  conversion or a flush raises, adds exactly one row; for every line of ASCII
  characters the test fails exactly when the line has fewer than 4 tab-separated fields
  or its first field, stripped of surrounding white space, is not exactly 8 decimal
  digits; and when the run completes, the lines read are the accepted lines plus the
  rejected lines.
\<close>

theorem line_parser:
  "(\<not> line_ok line \<longrightarrow>
      ingest_line cfg sid line s
        = (None, s\<lparr>total_lines := total_lines s + 1,
                    skipped_bad_lines := skipped_bad_lines s + 1\<rparr>))
   \<and> (line_ok line \<longrightarrow>
        skipped_bad_lines (snd (ingest_line cfg sid line s)) = skipped_bad_lines s
        \<and> (fst (ingest_line cfg sid line s) = None \<longrightarrow>
             upserts (snd (ingest_line cfg sid line s))
               + length (batch (snd (ingest_line cfg sid line s)))
             = upserts s + length (batch s) + 1))
   \<and> (list_all is_ascii line \<longrightarrow>
        line_ok line =
          (4 \<le> length (py_split (CHR 0x09) (py_rstrip (CHR 0x0A) line))
           \<and> eight_decimal_digits
                (py_strip (hd (py_split (CHR 0x09) (py_rstrip (CHR 0x0A) line))))))
   \<and> (run_ingest cfg files t = (None, s1) \<longrightarrow>
        total_lines s1 = length (concat (map snd files))
        \<and> skipped_bad_lines s1 = length (filter (\<lambda>l. \<not> line_ok l) (concat (map snd files)))
        \<and> upserts s1 = length (filter line_ok (concat (map snd files)))
        \<and> total_lines s1 = upserts s1 + skipped_bad_lines s1)"
proof -
  have a: "\<not> line_ok line \<longrightarrow>
      ingest_line cfg sid line s
        = (None, s\<lparr>total_lines := total_lines s + 1,
                    skipped_bad_lines := skipped_bad_lines s + 1\<rparr>)"
    by (simp add: ingest_line_eq)
  have b: "line_ok line \<longrightarrow>
        skipped_bad_lines (snd (ingest_line cfg sid line s)) = skipped_bad_lines s
        \<and> (fst (ingest_line cfg sid line s) = None \<longrightarrow>
             upserts (snd (ingest_line cfg sid line s))
               + length (batch (snd (ingest_line cfg sid line s)))
             = upserts s + length (batch s) + 1)"
    by (auto simp: ingest_line_eq flush_def split: sum.splits)
  have c: "list_all is_ascii line \<longrightarrow>
        line_ok line =
          (4 \<le> length (py_split (CHR 0x09) (py_rstrip (CHR 0x0A) line))
           \<and> eight_decimal_digits
                (py_strip (hd (py_split (CHR 0x09) (py_rstrip (CHR 0x0A) line)))))"
    using line_ok_ascii by blast
  have d: "run_ingest cfg files t = (None, s1) \<longrightarrow>
        total_lines s1 = length (concat (map snd files))
        \<and> skipped_bad_lines s1 = length (filter (\<lambda>l. \<not> line_ok l) (concat (map snd files)))
        \<and> upserts s1 = length (filter line_ok (concat (map snd files)))
        \<and> total_lines s1 = upserts s1 + skipped_bad_lines s1"
  proof
    assume r: "run_ingest cfg files t = (None, s1)"
    note i = run_ingest_inv [OF r]
    have "length (concat (map snd files))
            = length (filter line_ok (concat (map snd files)))
              + length (filter (\<lambda>l. \<not> line_ok l) (concat (map snd files)))"
      using sum_length_filter_compl [of line_ok "concat (map snd files)"] by simp
    then show "total_lines s1 = length (concat (map snd files))
        \<and> skipped_bad_lines s1 = length (filter (\<lambda>l. \<not> line_ok l) (concat (map snd files)))
        \<and> upserts s1 = length (filter line_ok (concat (map snd files)))
        \<and> total_lines s1 = upserts s1 + skipped_bad_lines s1"
      using i by simp
  qed
  show ?thesis
    using a b c d by blast
qed

theorem line_parser_witness:
  "ingest_line
     \<lparr>database_url = ''postgresql://db/weather'', wx_files = None,
      COMMIT_EVERY = 20000, FORCE_INGEST = False, max_str_digits = 4300\<rparr>
     ''S1'' (tsv_line ''1985010'' ''1'' ''2'' ''3'') (initial_state [])
   = (None, \<lparr>total_lines = 1, upserts = 0, skipped_bad_lines = 1, batch = [],
             table = [], flushed = []\<rparr>)
   \<and> \<not> line_ok (''19850102'' @ [CHR 0x09] @ ''7'' @ [CHR 0x09] @ ''8'' @ [CHR 0x0A])
   \<and> line_ok (tsv_line ''19850101'' ''123'' ''-9999'' ''100'')
   \<and> run_ingest
        \<lparr>database_url = ''postgresql://db/weather'', wx_files = None,
         COMMIT_EVERY = 20000, FORCE_INGEST = False, max_str_digits = 4300\<rparr>
        [(''S1'', [tsv_line ''19850101'' ''123'' ''-9999'' ''100'',
                   tsv_line ''1985010'' ''1'' ''2'' ''3'',
                   ''19850102'' @ [CHR 0x09] @ ''7'' @ [CHR 0x09] @ ''8'' @ [CHR 0x0A]])] []
      = (None, \<lparr>total_lines = 3, upserts = 1, skipped_bad_lines = 2, batch = [],
                table = [((''S1'', Date 1985 1 1), (Some 12.3, None, Some 1))],
                flushed = [[(''S1'', ''1985-01-01'', Some 12.3, None, Some 1)]]\<rparr>)"
  using line_parser [where line = "tsv_line ''1985010'' ''1'' ''2'' ''3''"
      and cfg = "\<lparr>database_url = ''postgresql://db/weather'', wx_files = None,
         COMMIT_EVERY = 20000, FORCE_INGEST = False, max_str_digits = 4300\<rparr>"
      and sid = "''S1''" and s = "initial_state []" and t = "[]"
      and files = "[(''S1'', [tsv_line ''19850101'' ''123'' ''-9999'' ''100'',
                   tsv_line ''1985010'' ''1'' ''2'' ''3'',
                   ''19850102'' @ [CHR 0x09] @ ''7'' @ [CHR 0x09] @ ''8'' @ [CHR 0x0A]])]"
      and ?s1.0 = "\<lparr>total_lines = 3, upserts = 1, skipped_bad_lines = 2, batch = [],
                table = [((''S1'', Date 1985 1 1), (Some 12.3, None, Some 1))],
                flushed = [[(''S1'', ''1985-01-01'', Some 12.3, None, Some 1)]]\<rparr>"]
    line_parser [where line = "tsv_line ''19850101'' ''123'' ''-9999'' ''100''"
      and cfg = "\<lparr>database_url = ''postgresql://db/weather'', wx_files = None,
         COMMIT_EVERY = 20000, FORCE_INGEST = False, max_str_digits = 4300\<rparr>"
      and sid = "''S1''" and s = "initial_state []"]
  by (simp add: tsv_line_def line_ok_def is_ascii_def eval_strings eval_ingest paginate_small)

subsection \<open>C9: the batch writer\<close>


lemma paginate_Cons:
  "0 < n \<Longrightarrow> paginate n (x # xs) = take n (x # xs) # paginate n (drop n (x # xs))"
  by (subst paginate.simps) simp





subsection \<open>C8: storage errors during the startup ingestion\<close>

lemma startup_calls:
  "run_startup_ingestion wr sr (fresh db k) = (r, s') \<Longrightarrow>
     calls s' = (if k = Some 0 then []
                 else if (\<exists>x. r = Inr x) then [SessionLocal, Close]
                 else [SessionLocal, Rollback, Close])"
  by (auto simp: eval_session fresh_def spend_def
        split: option.splits if_splits prod.splits sum.splits)

lemma startup_error:
  "run_startup_ingestion wr sr (fresh db k) = (Inl e, s') \<Longrightarrow>
     e = SQLAlchemyError \<and> ingestion_state (durable s') = ingestion_state db
     \<and> (k \<noteq> Some 0 \<longrightarrow> working s' = durable s')"
  by (auto simp: eval_session fresh_def spend_def
        split: option.splits if_splits prod.splits sum.splits)

lemma startup_done:
  "run_startup_ingestion wr sr (fresh db k) = (Inr (Done w n), s') \<Longrightarrow>
     durable s' = db\<lparr>weather := foldl insert_new (weather db) wr,
                    weather_stats := foldl insert_new (weather_stats db) sr,
                    ingestion_state := AList.update INGESTION_KEY True (ingestion_state db)\<rparr>"
  by (auto simp: eval_session fresh_def spend_def
        split: option.splits if_splits prod.splits sum.splits)

lemma startup_skip:
  "run_startup_ingestion wr sr (fresh db k) = (Inr AlreadyPresent, s') \<Longrightarrow> durable s' = db"
  by (auto simp: eval_session fresh_def spend_def
        split: option.splits if_splits prod.splits sum.splits)

text \<open>
  C8: let \<open>run_startup_ingestion\<close> run on a storage with committed content \<open>db\<close> under
  any fault plan \<open>k\<close>. If a storage error is raised once the session exists (\<open>k\<close> is not
  \<open>Some 0\<close>, the plan under which \<open>ensure_tables_exist\<close> fails before the \<open>try\<close>), the
  session is rolled back and then closed, the caller gets the \<open>SQLAlchemyError\<close>, the
  transaction in flight is gone, and the marker table is as it was. A run that returns
  closes its session too. The run reports \<open>Done\<close> only when the weather rows, the
  statistics rows and the marker with \<open>completed = true\<close> are all committed; and the
  marker table changes only in a run that reports \<open>Done\<close>.
\<close>

theorem startup_error_handling:
  "run_startup_ingestion wr sr (fresh db k) = (r, s') \<longrightarrow>
     (k \<noteq> Some 0 \<longrightarrow>
        (\<forall>e. r = Inl e \<longrightarrow>
           e = SQLAlchemyError
           \<and> calls s' = [SessionLocal, Rollback, Close]
           \<and> working s' = durable s'
           \<and> ingestion_state (durable s') = ingestion_state db)
        \<and> (\<forall>x. r = Inr x \<longrightarrow> calls s' = [SessionLocal, Close]))
     \<and> (k = Some 0 \<longrightarrow> r = Inl SQLAlchemyError \<and> calls s' = [] \<and> durable s' = db)
     \<and> (\<forall>w n. r = Inr (Done w n) \<longrightarrow>
           durable s' = db\<lparr>weather := foldl insert_new (weather db) wr,
                          weather_stats := foldl insert_new (weather_stats db) sr,
                          ingestion_state :=
                            AList.update INGESTION_KEY True (ingestion_state db)\<rparr>)
     \<and> (r = Inr AlreadyPresent \<longrightarrow> durable s' = db)
     \<and> (ingestion_state (durable s') \<noteq> ingestion_state db \<longrightarrow> (\<exists>w n. r = Inr (Done w n)))"
proof
  assume run: "run_startup_ingestion wr sr (fresh db k) = (r, s')"
  note c = startup_calls [OF run]
  have e: "\<And>e. r = Inl e \<Longrightarrow>
      e = SQLAlchemyError \<and> ingestion_state (durable s') = ingestion_state db
      \<and> (k \<noteq> Some 0 \<longrightarrow> working s' = durable s')"
    using startup_error run by blast
  have d: "\<And>w n. r = Inr (Done w n) \<Longrightarrow>
      durable s' = db\<lparr>weather := foldl insert_new (weather db) wr,
                     weather_stats := foldl insert_new (weather_stats db) sr,
                     ingestion_state := AList.update INGESTION_KEY True (ingestion_state db)\<rparr>"
    using startup_done run by blast
  have a: "r = Inr AlreadyPresent \<Longrightarrow> durable s' = db"
    using startup_skip run by blast
  have z: "k = Some 0 \<Longrightarrow> r = Inl SQLAlchemyError \<and> durable s' = db"
    using run by (auto simp: run_startup_ingestion_def session_execute_def fresh_def)
  have m: "ingestion_state (durable s') \<noteq> ingestion_state db \<Longrightarrow> \<exists>w n. r = Inr (Done w n)"
  proof (cases r)
    case (Inl x)
    assume "ingestion_state (durable s') \<noteq> ingestion_state db"
    then show ?thesis using e [OF Inl] by simp
  next
    case (Inr x)
    assume ch: "ingestion_state (durable s') \<noteq> ingestion_state db"
    show ?thesis
    proof (cases x)
      case AlreadyPresent
      then show ?thesis using a Inr ch by simp
    next
      case (Done w n)
      then show ?thesis using Inr by simp
    qed
  qed
  show "(k \<noteq> Some 0 \<longrightarrow>
        (\<forall>e. r = Inl e \<longrightarrow>
           e = SQLAlchemyError
           \<and> calls s' = [SessionLocal, Rollback, Close]
           \<and> working s' = durable s'
           \<and> ingestion_state (durable s') = ingestion_state db)
        \<and> (\<forall>x. r = Inr x \<longrightarrow> calls s' = [SessionLocal, Close]))
     \<and> (k = Some 0 \<longrightarrow> r = Inl SQLAlchemyError \<and> calls s' = [] \<and> durable s' = db)
     \<and> (\<forall>w n. r = Inr (Done w n) \<longrightarrow>
           durable s' = db\<lparr>weather := foldl insert_new (weather db) wr,
                          weather_stats := foldl insert_new (weather_stats db) sr,
                          ingestion_state :=
                            AList.update INGESTION_KEY True (ingestion_state db)\<rparr>)
     \<and> (r = Inr AlreadyPresent \<longrightarrow> durable s' = db)
     \<and> (ingestion_state (durable s') \<noteq> ingestion_state db \<longrightarrow> (\<exists>w n. r = Inr (Done w n)))"
    using c e d a z m by auto
qed

theorem startup_error_handling_witness:
  "run_startup_ingestion [((''S1'', Date 1985 1 1), (Some 1, None, None))] []
     (fresh \<lparr>weather = [], weather_stats = [], ingestion_state = []\<rparr> (Some 5))
   = (Inl SQLAlchemyError,
      \<lparr>durable = \<lparr>weather = [], weather_stats = [], ingestion_state = []\<rparr>,
       working = \<lparr>weather = [], weather_stats = [], ingestion_state = []\<rparr>,
       fuse = Some 0, calls = [SessionLocal, Rollback, Close]\<rparr>)
   \<and> run_startup_ingestion [((''S1'', Date 1985 1 1), (Some 1, None, None))] []
        (fresh \<lparr>weather = [], weather_stats = [], ingestion_state = []\<rparr> None)
      = (Inr (Done 1 0),
         \<lparr>durable = \<lparr>weather = [((''S1'', Date 1985 1 1), (Some 1, None, None))],
                     weather_stats = [], ingestion_state = [(INGESTION_KEY, True)]\<rparr>,
          working = \<lparr>weather = [((''S1'', Date 1985 1 1), (Some 1, None, None))],
                     weather_stats = [], ingestion_state = [(INGESTION_KEY, True)]\<rparr>,
          fuse = None, calls = [SessionLocal, Close]\<rparr>)"
  using startup_error_handling [of "[((''S1'', Date 1985 1 1), (Some 1, None, None))]" "[]"
      "\<lparr>weather = [], weather_stats = [], ingestion_state = []\<rparr>" "Some 5"
      "Inl SQLAlchemyError"
      "\<lparr>durable = \<lparr>weather = [], weather_stats = [], ingestion_state = []\<rparr>,
       working = \<lparr>weather = [], weather_stats = [], ingestion_state = []\<rparr>,
       fuse = Some 0, calls = [SessionLocal, Rollback, Close]\<rparr>"]
    startup_error_handling [of "[((''S1'', Date 1985 1 1), (Some 1, None, None))]" "[]"
      "\<lparr>weather = [], weather_stats = [], ingestion_state = []\<rparr>" None
      "Inr (Done 1 0)"
      "\<lparr>durable = \<lparr>weather = [((''S1'', Date 1985 1 1), (Some 1, None, None))],
                     weather_stats = [], ingestion_state = [(INGESTION_KEY, True)]\<rparr>,
          working = \<lparr>weather = [((''S1'', Date 1985 1 1), (Some 1, None, None))],
                     weather_stats = [], ingestion_state = [(INGESTION_KEY, True)]\<rparr>,
          fuse = None, calls = [SessionLocal, Close]\<rparr>"]
  by (simp add: eval_session fresh_def spend_def)

subsection \<open>Helper facts: the writes of a run do not depend on the stored rows\<close>

lemma upsert_statement_cases:
  "upsert_statement t p = Inl e \<Longrightarrow> upsert_statement t2 p = Inl e"
  "upsert_statement t p = Inr t' \<Longrightarrow>
     \<exists>kvs. cast_rows p = Some kvs \<and> t' = foldl upsert_row t kvs
           \<and> upsert_statement t2 p = Inr (foldl upsert_row t2 kvs)"
  by (auto simp: upsert_statement_def split: option.splits if_splits)

lemma run_pages_Inl_indep: "run_pages t ps = Inl e \<Longrightarrow> run_pages t2 ps = Inl e"
proof (induction ps arbitrary: t t2)
  case Nil
  then show ?case by simp
next
  case (Cons p ps)
  show ?case
  proof (cases "upsert_statement t p")
    case (Inl x)
    then show ?thesis
      using Cons.prems upsert_statement_cases(1) [of t p x t2] by simp
  next
    case (Inr t1)
    then obtain kvs where "upsert_statement t2 p = Inr (foldl upsert_row t2 kvs)"
      using upsert_statement_cases(2) [of t p t1 t2] by blast
    then show ?thesis
      using Cons.prems Inr Cons.IH [of t1 "foldl upsert_row t2 kvs"] by simp
  qed
qed

lemma run_pages_Inr_indep:
  "run_pages t ps = Inr t' \<Longrightarrow>
     \<exists>kvs. t' = foldl upsert_row t kvs \<and> (\<forall>t2. run_pages t2 ps = Inr (foldl upsert_row t2 kvs))"
proof (induction ps arbitrary: t)
  case Nil
  then have "t' = foldl upsert_row t [] \<and> (\<forall>t2. run_pages t2 [] = Inr (foldl upsert_row t2 []))"
    by simp
  then show ?case by blast
next
  case (Cons p ps)
  from Cons.prems obtain t1 where p: "upsert_statement t p = Inr t1"
    and r: "run_pages t1 ps = Inr t'"
    by (auto split: sum.splits)
  from p obtain a where a: "t1 = foldl upsert_row t a"
    "\<And>t2. upsert_statement t2 p = Inr (foldl upsert_row t2 a)"
    using upsert_statement_cases(2) [of t p t1] by (metis option.inject)
  from Cons.IH [OF r] obtain b where b: "t' = foldl upsert_row t1 b"
    "\<And>t2. run_pages t2 ps = Inr (foldl upsert_row t2 b)"
    by blast
  have "t' = foldl upsert_row t (a @ b)
        \<and> (\<forall>t2. run_pages t2 (p # ps) = Inr (foldl upsert_row t2 (a @ b)))"
    using a b by simp
  then show ?case by blast
qed

lemma flush_indep:
  "flush s = (r, s') \<Longrightarrow>
     \<exists>W. table s' = foldl upsert_row (table s) W
         \<and> (\<forall>t2. flush (s\<lparr>table := t2\<rparr>) = (r, s'\<lparr>table := foldl upsert_row t2 W\<rparr>))"
proof (cases "execute_values (table s) (batch s)")
  case (Inl e)
  assume f: "flush s = (r, s')"
  have rs: "r = Some e" "s' = s"
    using f Inl by (simp_all add: flush_def)
  have "flush (s\<lparr>table := t2\<rparr>) = (Some e, s\<lparr>table := t2\<rparr>)" for t2
  proof -
    have "execute_values t2 (batch s) = Inl e"
      using Inl run_pages_Inl_indep unfolding execute_values_def by blast
    then show ?thesis by (simp add: flush_def)
  qed
  then have "table s' = foldl upsert_row (table s) []
         \<and> (\<forall>t2. flush (s\<lparr>table := t2\<rparr>) = (r, s'\<lparr>table := foldl upsert_row t2 []\<rparr>))"
    unfolding rs by simp
  then show ?thesis by blast
next
  case (Inr t1)
  assume f: "flush s = (r, s')"
  from Inr obtain W where W: "t1 = foldl upsert_row (table s) W"
    and W2: "\<And>t2. execute_values t2 (batch s) = Inr (foldl upsert_row t2 W)"
    using run_pages_Inr_indep unfolding execute_values_def by blast
  have rs: "r = None"
    "s' = s\<lparr>table := t1, upserts := upserts s + length (batch s),
                flushed := flushed s @ [batch s], batch := []\<rparr>"
    using f Inr by (simp_all add: flush_def)
  have "flush (s\<lparr>table := t2\<rparr>)
          = (None, s\<lparr>table := foldl upsert_row t2 W, upserts := upserts s + length (batch s),
                flushed := flushed s @ [batch s], batch := []\<rparr>)" for t2
    by (simp add: flush_def W2)
  then have "table s' = foldl upsert_row (table s) W
         \<and> (\<forall>t2. flush (s\<lparr>table := t2\<rparr>) = (r, s'\<lparr>table := foldl upsert_row t2 W\<rparr>))"
    unfolding rs using W by simp
  then show ?thesis by blast
qed

lemma ingest_line_indep:
  "ingest_line cfg sid line s = (r, s') \<Longrightarrow>
     \<exists>W. table s' = foldl upsert_row (table s) W
         \<and> (\<forall>t2. ingest_line cfg sid line (s\<lparr>table := t2\<rparr>)
                  = (r, s'\<lparr>table := foldl upsert_row t2 W\<rparr>))"
proof -
  assume a: "ingest_line cfg sid line s = (r, s')"
  let ?trivial = "table s' = foldl upsert_row (table s) []
         \<and> (\<forall>t2. ingest_line cfg sid line (s\<lparr>table := t2\<rparr>)
                  = (r, s'\<lparr>table := foldl upsert_row t2 []\<rparr>))"
  show ?thesis
  proof (cases "line_ok line")
    case False
    with a have ?trivial by (auto simp: ingest_line_eq)
    then show ?thesis by blast
  next
    case ok: True
    show ?thesis
    proof (cases "line_row cfg sid line")
      case (Inl e)
      with a ok have ?trivial by (auto simp: ingest_line_eq)
      then show ?thesis by blast
    next
      case (Inr row)
      show ?thesis
      proof (cases "COMMIT_EVERY cfg \<le> int (length (batch s)) + 1")
        case False
        with a ok Inr have ?trivial by (auto simp: ingest_line_eq)
        then show ?thesis by blast
      next
        case True
        let ?s1 = "s\<lparr>total_lines := total_lines s + 1, batch := batch s @ [row]\<rparr>"
        have "flush ?s1 = (r, s')"
          using a ok Inr True by (simp add: ingest_line_eq)
        from flush_indep [OF this] obtain W where
          W: "table s' = foldl upsert_row (table ?s1) W"
          "\<And>t2. flush (?s1\<lparr>table := t2\<rparr>) = (r, s'\<lparr>table := foldl upsert_row t2 W\<rparr>)"
          by blast
        have sw: "s\<lparr>table := t2, total_lines := a, batch := b\<rparr>
                    = s\<lparr>total_lines := a, batch := b, table := t2\<rparr>" for t2 a b
          by (cases s) simp
        have "ingest_line cfg sid line (s\<lparr>table := t2\<rparr>) = flush (?s1\<lparr>table := t2\<rparr>)" for t2
          using ok Inr True by (simp add: ingest_line_eq sw)
        then have "table s' = foldl upsert_row (table s) W
           \<and> (\<forall>t2. ingest_line cfg sid line (s\<lparr>table := t2\<rparr>)
                  = (r, s'\<lparr>table := foldl upsert_row t2 W\<rparr>))"
          using W by simp
        then show ?thesis by blast
      qed
    qed
  qed
qed

lemma ingest_lines_indep:
  "ingest_lines cfg sid ls s = (r, s') \<Longrightarrow>
     \<exists>W. table s' = foldl upsert_row (table s) W
         \<and> (\<forall>t2. ingest_lines cfg sid ls (s\<lparr>table := t2\<rparr>)
                  = (r, s'\<lparr>table := foldl upsert_row t2 W\<rparr>))"
proof (induction ls arbitrary: s)
  case Nil
  then have "table s' = foldl upsert_row (table s) []
         \<and> (\<forall>t2. ingest_lines cfg sid [] (s\<lparr>table := t2\<rparr>)
                  = (r, s'\<lparr>table := foldl upsert_row t2 []\<rparr>))"
    by auto
  then show ?case by blast
next
  case (Cons l ls)
  obtain r1 s1 where l: "ingest_line cfg sid l s = (r1, s1)"
    by (cases "ingest_line cfg sid l s") auto
  from ingest_line_indep [OF l] obtain W1 where
    W1: "table s1 = foldl upsert_row (table s) W1"
    "\<And>t2. ingest_line cfg sid l (s\<lparr>table := t2\<rparr>) = (r1, s1\<lparr>table := foldl upsert_row t2 W1\<rparr>)"
    by blast
  show ?case
  proof (cases r1)
    case (Some e)
    then have "r = Some e" "s' = s1"
      using Cons.prems l by auto
    then have "table s' = foldl upsert_row (table s) W1
         \<and> (\<forall>t2. ingest_lines cfg sid (l # ls) (s\<lparr>table := t2\<rparr>)
                  = (r, s'\<lparr>table := foldl upsert_row t2 W1\<rparr>))"
      using W1 Some by simp
    then show ?thesis by blast
  next
    case None
    then have rest: "ingest_lines cfg sid ls s1 = (r, s')"
      using Cons.prems l by simp
    from Cons.IH [OF rest] obtain W2 where
      W2: "table s' = foldl upsert_row (table s1) W2"
      "\<And>t2. ingest_lines cfg sid ls (s1\<lparr>table := t2\<rparr>)
               = (r, s'\<lparr>table := foldl upsert_row t2 W2\<rparr>)"
      by blast
    have "table s' = foldl upsert_row (table s) (W1 @ W2)
         \<and> (\<forall>t2. ingest_lines cfg sid (l # ls) (s\<lparr>table := t2\<rparr>)
                  = (r, s'\<lparr>table := foldl upsert_row t2 (W1 @ W2)\<rparr>))"
      using W1 W2 None by simp
    then show ?thesis by blast
  qed
qed

lemma ingest_files_indep:
  "ingest_files cfg files s = (r, s') \<Longrightarrow>
     \<exists>W. table s' = foldl upsert_row (table s) W
         \<and> (\<forall>t2. ingest_files cfg files (s\<lparr>table := t2\<rparr>)
                  = (r, s'\<lparr>table := foldl upsert_row t2 W\<rparr>))"
proof (induction files arbitrary: s)
  case Nil
  then have "table s' = foldl upsert_row (table s) []
         \<and> (\<forall>t2. ingest_files cfg [] (s\<lparr>table := t2\<rparr>)
                  = (r, s'\<lparr>table := foldl upsert_row t2 []\<rparr>))"
    by auto
  then show ?case by blast
next
  case (Cons fp files)
  obtain r1 s1 where l: "ingest_lines cfg (fst fp) (snd fp) s = (r1, s1)"
    by (cases "ingest_lines cfg (fst fp) (snd fp) s") auto
  from ingest_lines_indep [OF l] obtain W1 where
    W1: "table s1 = foldl upsert_row (table s) W1"
    "\<And>t2. ingest_lines cfg (fst fp) (snd fp) (s\<lparr>table := t2\<rparr>)
             = (r1, s1\<lparr>table := foldl upsert_row t2 W1\<rparr>)"
    by blast
  show ?case
  proof (cases r1)
    case (Some e)
    then have "r = Some e" "s' = s1"
      using Cons.prems l by auto
    then have "table s' = foldl upsert_row (table s) W1
         \<and> (\<forall>t2. ingest_files cfg (fp # files) (s\<lparr>table := t2\<rparr>)
                  = (r, s'\<lparr>table := foldl upsert_row t2 W1\<rparr>))"
      using W1 Some by simp
    then show ?thesis by blast
  next
    case None
    then have rest: "ingest_files cfg files s1 = (r, s')"
      using Cons.prems l by simp
    from Cons.IH [OF rest] obtain W2 where
      W2: "table s' = foldl upsert_row (table s1) W2"
      "\<And>t2. ingest_files cfg files (s1\<lparr>table := t2\<rparr>)
               = (r, s'\<lparr>table := foldl upsert_row t2 W2\<rparr>)"
      by blast
    have "table s' = foldl upsert_row (table s) (W1 @ W2)
         \<and> (\<forall>t2. ingest_files cfg (fp # files) (s\<lparr>table := t2\<rparr>)
                  = (r, s'\<lparr>table := foldl upsert_row t2 (W1 @ W2)\<rparr>))"
      using W1 W2 None by simp
    then show ?thesis by blast
  qed
qed

lemma run_ingest_writes:
  "\<exists>W. \<forall>t. table (snd (run_ingest cfg files t)) = foldl upsert_row t W"
proof -
  obtain r s1 where f: "ingest_files cfg files (initial_state []) = (r, s1)"
    by (cases "ingest_files cfg files (initial_state [])") auto
  from ingest_files_indep [OF f] obtain W1 where
    W1: "\<And>t2. ingest_files cfg files ((initial_state [])\<lparr>table := t2\<rparr>)
             = (r, s1\<lparr>table := foldl upsert_row t2 W1\<rparr>)"
    by blast
  have init: "\<And>t. (initial_state [])\<lparr>table := t\<rparr> = initial_state t"
    by (simp add: initial_state_def)
  have run: "\<And>t. ingest_files cfg files (initial_state t)
                 = (r, s1\<lparr>table := foldl upsert_row t W1\<rparr>)"
    using W1 init by simp
  show ?thesis
  proof (cases "r = None \<and> batch s1 \<noteq> []")
    case False
    then have "\<And>t. table (snd (run_ingest cfg files t)) = foldl upsert_row t W1"
      by (auto simp: run_ingest_def run split: option.splits)
    then show ?thesis by blast
  next
    case True
    obtain r2 s2 where fl: "flush s1 = (r2, s2)"
      by (cases "flush s1") auto
    from flush_indep [OF fl] obtain W2 where
      W2: "\<And>t2. flush (s1\<lparr>table := t2\<rparr>) = (r2, s2\<lparr>table := foldl upsert_row t2 W2\<rparr>)"
      by blast
    have "\<And>t. table (snd (run_ingest cfg files t)) = foldl upsert_row t (W1 @ W2)"
      using True by (simp add: run_ingest_def run W2)
    then show ?thesis by blast
  qed
qed

subsection \<open>Helper facts: writing the same rows twice\<close>

lemma keys_foldl_upsert:
  "fst ` set (foldl upsert_row t W) = fst ` set t \<union> fst ` set W"
  by (induction W arbitrary: t) (auto simp: upsert_row_def dom_update)

lemma update_commute:
  "k \<noteq> k' \<Longrightarrow> k' \<in> fst ` set t \<Longrightarrow>
     AList.update k v (AList.update k' v' t) = AList.update k' v' (AList.update k v t)"
proof (induction t)
  case Nil
  then show ?case by simp
next
  case (Cons p t)
  show ?case
  proof (cases "fst p = k'")
    case True
    then show ?thesis using Cons.prems by (cases p) auto
  next
    case False
    then have "k' \<in> fst ` set t" using Cons.prems by auto
    then show ?thesis using Cons False by (cases p) auto
  qed
qed

lemma upsert_absorb:
  "fst ` set W \<subseteq> fst ` set t \<Longrightarrow>
     upsert_row (foldl upsert_row (upsert_row t kv) W) kv = upsert_row (foldl upsert_row t W) kv"
proof (induction W arbitrary: t)
  case Nil
  then show ?case by (simp add: upsert_row_def)
next
  case (Cons w W)
  have keys: "fst ` set W \<subseteq> fst ` set (upsert_row t w)"
    using Cons.prems by (auto simp: upsert_row_def dom_update)
  have swap: "upsert_row (upsert_row t kv) w = upsert_row (upsert_row t w) kv
              \<or> upsert_row (upsert_row t kv) w = upsert_row t w"
  proof (cases "fst w = fst kv")
    case True
    then show ?thesis by (simp add: upsert_row_def)
  next
    case False
    moreover have "fst w \<in> fst ` set t" using Cons.prems by auto
    ultimately show ?thesis
      using update_commute [of "fst kv" "fst w" t "snd kv" "snd w"]
      by (simp add: upsert_row_def)
  qed
  then show ?case
  proof
    assume "upsert_row (upsert_row t kv) w = upsert_row (upsert_row t w) kv"
    then show ?thesis using Cons.IH [OF keys] by simp
  next
    assume "upsert_row (upsert_row t kv) w = upsert_row t w"
    then show ?thesis by simp
  qed
qed

lemma foldl_upsert_twice:
  "foldl upsert_row (foldl upsert_row t W) W = foldl upsert_row t W"
proof (induction W rule: rev_induct)
  case Nil
  then show ?case by simp
next
  case (snoc kv W)
  let ?T = "foldl upsert_row t W"
  have keys: "fst ` set W \<subseteq> fst ` set ?T"
    by (simp add: keys_foldl_upsert)
  have "foldl upsert_row (foldl upsert_row t (W @ [kv])) (W @ [kv])
          = upsert_row (foldl upsert_row (upsert_row ?T kv) W) kv"
    by simp
  also have "\<dots> = upsert_row (foldl upsert_row ?T W) kv"
    by (rule upsert_absorb [OF keys])
  also have "\<dots> = upsert_row ?T kv"
    by (simp add: snoc.IH)
  finally show ?case by simp
qed

lemma keys_foldl_insert_new:
  "fst ` set (foldl insert_new t rows) = fst ` set t \<union> fst ` set rows"
proof (induction rows arbitrary: t)
  case Nil
  then show ?case by simp
next
  case (Cons kv rows)
  have "fst ` set (insert_new t kv) = insert (fst kv) (fst ` set t)"
    by (auto simp: insert_new_def map_of_eq_None_iff)
  then show ?case
    using Cons.IH [of "insert_new t kv"] by auto
qed

lemma foldl_insert_new_present:
  "fst ` set rows \<subseteq> fst ` set t \<Longrightarrow> foldl insert_new t rows = t"
proof (induction rows)
  case Nil
  then show ?case by simp
next
  case (Cons kv rows)
  then have "insert_new t kv = t"
    by (auto simp: insert_new_def map_of_eq_None_iff)
  then show ?case using Cons by simp
qed

lemma foldl_insert_new_twice:
  "foldl insert_new (foldl insert_new t rows) rows = foldl insert_new t rows"
  by (rule foldl_insert_new_present) (simp add: keys_foldl_insert_new)

lemma startup_no_fault:
  "\<exists>x s'. run_startup_ingestion wr sr (fresh db None) = (Inr x, s')"
  by (auto simp: eval_session fresh_def spend_def split: option.splits)

lemma startup_marker_true:
  "map_of (ingestion_state db) INGESTION_KEY = Some True \<Longrightarrow>
     durable (snd (run_startup_ingestion wr sr (fresh db None))) = db"
  by (simp add: eval_session fresh_def spend_def)

subsection \<open>C7: running the ingestion twice\<close>

text \<open>
  C7: whatever \<open>weather\<close> holds before, after a run of the batch job a second run over
  the same settings and files leaves \<open>weather\<close> exactly as the first run left it: the
  same rows with the same field values, hence the same row count. This holds whether
  the second run is skipped by the guard or, with \<open>FORCE_INGEST\<close>, upserts every row
  again, and also when both runs are aborted by the same refused statement. The same
  holds for the startup module: inserting the same rows twice with \<open>ON CONFLICT DO
  NOTHING\<close> equals inserting them once, and a second \<open>run_startup_ingestion\<close> (without
  storage faults) leaves the committed content as the first one left it.
\<close>

theorem ingestion_idempotent:
  "snd (main cfg (snd (main cfg t))) = snd (main cfg t)
   \<and> foldl insert_new (foldl insert_new t0 rows) rows = foldl insert_new t0 rows
   \<and> durable (snd (run_startup_ingestion wr sr
         (fresh (durable (snd (run_startup_ingestion wr sr (fresh db None)))) None)))
      = durable (snd (run_startup_ingestion wr sr (fresh db None)))"
proof -
  have m: "snd (main cfg (snd (main cfg t))) = snd (main cfg t)"
  proof (cases "py_strip (database_url cfg) = [] \<or> (t \<noteq> [] \<and> \<not> FORCE_INGEST cfg)
                \<or> wx_files cfg = None")
    case True
    then have "snd (main cfg t) = t"
      by (auto simp: main_def Let_def)
    then show ?thesis by simp
  next
    case False
    then obtain files where files: "wx_files cfg = Some files" by auto
    obtain W where W: "\<And>u. table (snd (run_ingest cfg files u)) = foldl upsert_row u W"
      using run_ingest_writes [of cfg files] by blast
    have run: "snd (main cfg u) = foldl upsert_row u W"
      if "\<not> (u \<noteq> [] \<and> \<not> FORCE_INGEST cfg)" for u
      using that False files W [of u]
      by (auto simp: main_def Let_def split: prod.splits option.splits)
    have first: "snd (main cfg t) = foldl upsert_row t W"
      using run [of t] False by blast
    show ?thesis
    proof (cases "foldl upsert_row t W \<noteq> [] \<and> \<not> FORCE_INGEST cfg")
      case True
      then have "snd (main cfg (foldl upsert_row t W)) = foldl upsert_row t W"
        using False by (auto simp: main_def Let_def)
      then show ?thesis by (simp add: first)
    next
      case f: False
      then have "snd (main cfg (foldl upsert_row t W)) = foldl upsert_row (foldl upsert_row t W) W"
        using run [of "foldl upsert_row t W"] by blast
      then show ?thesis by (simp add: first foldl_upsert_twice)
    qed
  qed
  have s: "durable (snd (run_startup_ingestion wr sr
         (fresh (durable (snd (run_startup_ingestion wr sr (fresh db None)))) None)))
      = durable (snd (run_startup_ingestion wr sr (fresh db None)))"
  proof -
    obtain x s1 where r1: "run_startup_ingestion wr sr (fresh db None) = (Inr x, s1)"
      using startup_no_fault by blast
    show ?thesis
    proof (cases x)
      case AlreadyPresent
      then have "durable s1 = db" using startup_skip r1 by blast
      then show ?thesis using r1 by simp
    next
      case (Done w n)
      then have "durable s1 = db\<lparr>weather := foldl insert_new (weather db) wr,
                    weather_stats := foldl insert_new (weather_stats db) sr,
                    ingestion_state := AList.update INGESTION_KEY True (ingestion_state db)\<rparr>"
        using startup_done r1 by blast
      then have "map_of (ingestion_state (durable s1)) INGESTION_KEY = Some True"
        by (simp add: update_conv')
      then show ?thesis
        using startup_marker_true [of "durable s1" wr sr] r1 by simp
    qed
  qed
  show ?thesis
    using m s foldl_insert_new_twice by blast
qed

theorem ingestion_idempotent_witness:
  "snd (main \<lparr>database_url = ''postgresql://db/weather'',
              wx_files = Some [(''S1'', [tsv_line ''19850101'' ''123'' ''-9999'' ''100'',
                                         tsv_line ''19850101'' ''150'' ''20'' ''-9999''])],
              COMMIT_EVERY = 1, FORCE_INGEST = True, max_str_digits = 4300\<rparr> [])
     = [((''S1'', Date 1985 1 1), (Some 15, Some 2, None))]
   \<and> snd (main \<lparr>database_url = ''postgresql://db/weather'',
              wx_files = Some [(''S1'', [tsv_line ''19850101'' ''123'' ''-9999'' ''100'',
                                         tsv_line ''19850101'' ''150'' ''20'' ''-9999''])],
              COMMIT_EVERY = 1, FORCE_INGEST = True, max_str_digits = 4300\<rparr>
            [((''S1'', Date 1985 1 1), (Some 15, Some 2, None))])
     = [((''S1'', Date 1985 1 1), (Some 15, Some 2, None))]"
  using ingestion_idempotent [of
      "\<lparr>database_url = ''postgresql://db/weather'',
              wx_files = Some [(''S1'', [tsv_line ''19850101'' ''123'' ''-9999'' ''100'',
                                         tsv_line ''19850101'' ''150'' ''20'' ''-9999''])],
              COMMIT_EVERY = 1, FORCE_INGEST = True, max_str_digits = 4300\<rparr>" "[]"]
  by (simp add: tsv_line_def eval_strings eval_ingest paginate_small)

end
